theory Spec2Isabelle
  imports Complex_Main "HOL-Library.AList" "HOL-Library.Stream"
begin

section \<open>Strings\<close>

text \<open>
  Python strings are modelled as \<^typ>\<open>string\<close>. The model covers ASCII text:
  \<open>str.lower\<close> and \<open>str.upper\<close> map the 26 ASCII letters and leave every other
  character as it is, \<open>str.isupper\<close> on one character holds for \<open>A\<close> to \<open>Z\<close>.
\<close>

definition upper_letters :: string where
  "upper_letters = ''ABCDEFGHIJKLMNOPQRSTUVWXYZ''"

definition lower_letters :: string where
  "lower_letters = ''abcdefghijklmnopqrstuvwxyz''"

definition lower_char :: "char \<Rightarrow> char" where
  "lower_char c = (case map_of (zip upper_letters lower_letters) c of None \<Rightarrow> c | Some d \<Rightarrow> d)"

definition upper_char :: "char \<Rightarrow> char" where
  "upper_char c = (case map_of (zip lower_letters upper_letters) c of None \<Rightarrow> c | Some d \<Rightarrow> d)"

definition lower :: "string \<Rightarrow> string" where
  "lower s = map lower_char s"

definition upper :: "string \<Rightarrow> string" where
  "upper s = map upper_char s"

definition isupper :: "char \<Rightarrow> bool" where
  "isupper c = (c \<in> set upper_letters)"

definition isalpha :: "char \<Rightarrow> bool" where
  "isalpha c = (c \<in> set upper_letters \<or> c \<in> set lower_letters)"

text \<open>\<open>s.endswith(suf)\<close>.\<close>

definition endswith :: "string \<Rightarrow> string \<Rightarrow> bool" where
  "endswith s suf = (length suf \<le> length s \<and> drop (length s - length suf) s = suf)"

text \<open>\<open>s.endswith((suf1, suf2, ...))\<close>: some member of the tuple is a suffix.\<close>

definition endswith_any :: "string \<Rightarrow> string list \<Rightarrow> bool" where
  "endswith_any s sufs = list_ex (endswith s) sufs"

text \<open>
  \<open>s.replace(old, new)\<close>: the occurrences of \<open>old\<close> are found from the left and do
  not overlap. For an empty \<open>old\<close> Python puts \<open>new\<close> before every character and at
  the end.
\<close>

function replace :: "string \<Rightarrow> string \<Rightarrow> string \<Rightarrow> string" where
  "replace old new s =
     (if old = [] then new @ concat (map (\<lambda>c. c # new) s)
      else if s = [] then []
      else if take (length old) s = old then new @ replace old new (drop (length old) s)
      else hd s # replace old new (tl s))"
  by pat_completeness auto
termination
  by (relation "measure (\<lambda>(old, new, s). length s)") (auto simp: neq_Nil_conv)

declare replace.simps [simp del]

text \<open>\<open>sep.join(tokens)\<close>.\<close>

fun join :: "string \<Rightarrow> string list \<Rightarrow> string" where
  "join sep [] = []"
| "join sep [t] = t"
| "join sep (t # ts) = t @ sep @ join sep ts"

text \<open>\<open>sub in s\<close> for strings: \<open>sub\<close> occurs in \<open>s\<close> as a contiguous block.\<close>

fun contains :: "string \<Rightarrow> string \<Rightarrow> bool" where
  "contains [] sub = (sub = [])"
| "contains (c # cs) sub = (take (length sub) (c # cs) = sub \<or> contains cs sub)"

section \<open>Errors\<close>

datatype error = ValueError string | IndexError | KeyError | TypeError

section \<open>Floats\<close>

text \<open>
  A Python float is a finite number, one of the two infinities, or NaN. Finite values are
  modelled as real numbers, so rounding is outside the model. The sums that \<open>combine\<close>
  forms add a polarity to a valence between -1 and 1, which cannot overflow.
\<close>

datatype pyfloat = Finite real | PosInf | NegInf | NaN

text \<open>\<open>a + b\<close> on floats.\<close>

fun fadd :: "pyfloat \<Rightarrow> pyfloat \<Rightarrow> pyfloat" where
  "fadd NaN b = NaN"
| "fadd a NaN = NaN"
| "fadd PosInf NegInf = NaN"
| "fadd NegInf PosInf = NaN"
| "fadd PosInf b = PosInf"
| "fadd a PosInf = PosInf"
| "fadd NegInf b = NegInf"
| "fadd a NegInf = NegInf"
| "fadd (Finite x) (Finite y) = Finite (x + y)"

text \<open>\<open>math.tanh\<close>.\<close>

fun ftanh :: "pyfloat \<Rightarrow> pyfloat" where
  "ftanh (Finite x) = Finite (tanh x)"
| "ftanh PosInf = Finite 1"
| "ftanh NegInf = Finite (- 1)"
| "ftanh NaN = NaN"

text \<open>\<open>-1.0 <= v <= 1.0\<close>: every comparison with NaN is false.\<close>

fun in_unit :: "pyfloat \<Rightarrow> bool" where
  "in_unit (Finite x) = (- 1 \<le> x \<and> x \<le> 1)"
| "in_unit PosInf = False"
| "in_unit NegInf = False"
| "in_unit NaN = False"

section \<open>Lexicon\<close>

datatype LexEntry = LexEntry (pos: string) (polarity: pyfloat)

text \<open>
  The dict \<open>entries\<close> keeps its keys in insertion order, and \<open>words_for_pos\<close> lists them in
  that order: it is an association list, stored into with \<^const>\<open>AList.update\<close>
  (an existing key keeps its place, a new key goes to the end).
\<close>

type_synonym Lexicon = "(string \<times> LexEntry) list"

definition Lexicon_init :: Lexicon where
  "Lexicon_init =
    [(''the'', LexEntry ''DET'' (Finite 0)),
     (''a'', LexEntry ''DET'' (Finite 0)),
     (''an'', LexEntry ''DET'' (Finite 0)),
     (''cat'', LexEntry ''NOUN'' (Finite (2/10))),
     (''dog'', LexEntry ''NOUN'' (Finite (3/10))),
     (''child'', LexEntry ''NOUN'' (Finite (4/10))),
     (''war'', LexEntry ''NOUN'' (Finite (- (9/10)))),
     (''love'', LexEntry ''NOUN'' (Finite (9/10))),
     (''see'', LexEntry ''VERB'' (Finite 0)),
     (''like'', LexEntry ''VERB'' (Finite (6/10))),
     (''chase'', LexEntry ''VERB'' (Finite (- (1/10)))),
     (''hate'', LexEntry ''VERB'' (Finite (- (7/10)))),
     (''adore'', LexEntry ''VERB'' (Finite (8/10))),
     (''happy'', LexEntry ''ADJ'' (Finite (8/10))),
     (''sad'', LexEntry ''ADJ'' (Finite (- (6/10)))),
     (''brave'', LexEntry ''ADJ'' (Finite (5/10))),
     (''angry'', LexEntry ''ADJ'' (Finite (- (5/10))))]"

text \<open>The polarity argument is the float that \<open>float(polarity)\<close> gives.\<close>

definition add :: "Lexicon \<Rightarrow> string \<Rightarrow> string \<Rightarrow> pyfloat \<Rightarrow> Lexicon" where
  "add entries word p pol = AList.update (lower word) (LexEntry (upper p) pol) entries"

definition get :: "Lexicon \<Rightarrow> string \<Rightarrow> LexEntry option" where
  "get entries word = map_of entries (lower word)"

definition words_for_pos :: "Lexicon \<Rightarrow> string \<Rightarrow> string list" where
  "words_for_pos entries p = map fst (filter (\<lambda>(w, e). pos e = upper p) entries)"

section \<open>Morphology\<close>

definition VOWELS :: "char set" where
  "VOWELS = set ''aeiou''"



definition past_tense :: "string \<Rightarrow> string" where
  "past_tense verb_base =
     (if endswith verb_base ''e'' then verb_base @ ''d''
      else if endswith verb_base ''y'' \<and> length verb_base > 1
         \<and> verb_base ! (length verb_base - 2) \<notin> VOWELS
      then butlast verb_base @ ''ied''
      else verb_base @ ''ed'')"

section \<open>Grammar\<close>

text \<open>
  The components of a tuple are Python values. The code looks at the first one only: it
  looks it up in a dict, compares it with strings and prints it. So a value is a string, a
  dict (the attribute map; it cannot be hashed), another value that cannot be hashed (a
  list, a set), or another value that can (a number, \<open>None\<close>, a tuple of such), which
  equals no string and is given by the text that \<open>str\<close> makes of it.
\<close>

datatype pyval = PyStr string | PyDict "(string \<times> string) list" | PyHashable string | PyUnhashable

text \<open>
  A symbol of a rule is a Python value: a string (a nonterminal name or a literal), a
  tuple, which is meant to be a slot name with an attribute dict but may have any length
  and components, or a value of any other type, which \<open>Other\<close> stands for.
\<close>

datatype symbol = Str string | Tup "pyval list" | Other

datatype Rule = Rule (lhs: string) (rhs: "symbol list list")

datatype Grammar = Grammar (rules: "(string \<times> Rule) list") (start: string)

definition add_rule :: "Grammar \<Rightarrow> string \<Rightarrow> symbol list list \<Rightarrow> Grammar" where
  "add_rule gr l r = Grammar (AList.update l (Rule l r) (rules gr)) (start gr)"

definition has :: "Grammar \<Rightarrow> string \<Rightarrow> bool" where
  "has gr nonterminal = (nonterminal \<in> set (map fst (rules gr)))"

definition seed_rules :: "Grammar \<Rightarrow> Grammar" where
  "seed_rules g0 =
    (let g1 = add_rule g0 ''S'' [[Str ''CLAUSE''], [Str ''Q''], [Str ''IMP'']];
         g2 = add_rule g1 ''CLAUSE'' [[Str ''NP'', Str ''VP''], [Str ''NP'', Str ''VP'', Str ''PP'']];
         g3 = add_rule g2 ''NP'' [[Str ''DET'', Str ''N''], [Str ''DET'', Str ''ADJ'', Str ''N''], [Str ''N'']];
         g4 = add_rule g3 ''VP'' [[Str ''V'', Str ''NP''], [Str ''V''], [Str ''V'', Str ''ADJ'']];
         g5 = add_rule g4 ''PP'' [[Str ''P'', Str ''NP'']];
         g6 = add_rule g5 ''Q'' [[Str ''AUX'', Str ''NP'', Str ''V'', Str ''NP'', Str ''?''],
                                 [Str ''WH'', Str ''V'', Str ''NP'', Str ''?'']];
         g7 = add_rule g6 ''IMP'' [[Str ''V'', Str ''NP''], [Str ''V'']];
         g8 = add_rule g7 ''DET'' [[Tup [PyStr ''<DET>'', PyDict []]]];
         g9 = add_rule g8 ''N'' [[Tup [PyStr ''<NOUN>'', PyDict []]]];
         g10 = add_rule g9 ''V'' [[Tup [PyStr ''<VERB>'', PyDict []]]];
         g11 = add_rule g10 ''ADJ'' [[Tup [PyStr ''<ADJ>'', PyDict []]]];
         g12 = add_rule g11 ''P'' [[Tup [PyStr ''<P>'', PyDict []]]];
         g13 = add_rule g12 ''AUX'' [[Tup [PyStr ''<AUX>'', PyDict []]]];
         g14 = add_rule g13 ''WH'' [[Tup [PyStr ''<WH>'', PyDict []]]]
     in add_rule g14 ''?'' [[Str ''?'']])"

definition Grammar_init :: Grammar where
  "Grammar_init = seed_rules (Grammar [] ''S'')"

section \<open>Emotion field\<close>

datatype EmotionField = EmotionField (valence: pyfloat)

definition combine :: "EmotionField \<Rightarrow> EmotionField \<Rightarrow> EmotionField" where
  "combine a b = EmotionField (ftanh (fadd (valence a) (valence b)))"

definition from_word :: "string \<Rightarrow> Lexicon \<Rightarrow> EmotionField" where
  "from_word word lx =
     EmotionField (case get lx word of Some e \<Rightarrow> polarity e | None \<Rightarrow> Finite 0)"

section \<open>Derivation trees\<close>

text \<open>
  The field \<open>symbol\<close> holds a string wherever the rules are well formed. For the first
  component of a malformed tuple it holds that value; the model keeps the text of the
  value, which is what \<open>pretty\<close> prints.
\<close>

datatype DerivationNode =
  DerivationNode (symbol: string) (children: "DerivationNode list") (token: "string option")

text \<open>The arrow of the leaf lines is U+2192, here its three UTF-8 bytes.\<close>

definition arrow :: string where
  "arrow = [CHR 0xE2, CHR 0x86, CHR 0x92]"

fun pretty :: "DerivationNode \<Rightarrow> nat \<Rightarrow> string" where
  "pretty (DerivationNode sy chs tok) indent =
     (let pad = concat (replicate indent ''  '') in
      case tok of
        Some t \<Rightarrow> pad @ sy @ '' '' @ arrow @ '' '' @ [CHR 0x27] @ t @ [CHR 0x27, CHR 0x0A]
      | None \<Rightarrow> foldl (\<lambda>out ch. out @ pretty ch (indent + 1)) (pad @ sy @ [CHR 0x0A]) chs)"

section \<open>The random stream\<close>

text \<open>
  The module \<open>random\<close> is one shared generator. Its state is modelled as the stream of
  the draws still to come: \<open>random.choice(seq)\<close> takes the next draw, reduced below
  \<open>len(seq)\<close>, as the index, and raises \<open>IndexError\<close> on an empty sequence.
\<close>

type_synonym rng = "nat stream"

definition choice :: "rng \<Rightarrow> 'a list \<Rightarrow> error + ('a \<times> rng)" where
  "choice rs xs = (if xs = [] then Inl IndexError else Inr (xs ! (shd rs mod length xs), stl rs))"

section \<open>Sentence generator\<close>

text \<open>
  The constructor reseeds the shared generator when a seed is given and leaves it as it
  is otherwise. \<open>prng\<close> is the generator of the Python library, the stream of draws that
  \<open>random.seed(s)\<close> starts; it is a parameter of the model.
\<close>

definition SentenceGenerator_init :: "(int \<Rightarrow> rng) \<Rightarrow> int option \<Rightarrow> rng \<Rightarrow> rng" where
  "SentenceGenerator_init prng seed shared =
     (case seed of None \<Rightarrow> shared | Some s \<Rightarrow> prng s)"

definition functional_words :: "(string \<times> string list) list" where
  "functional_words =
     [(''<P>'', [''with'', ''without'', ''near'', ''against'']),
      (''<AUX>'', [''does'', ''did'', ''will'']),
      (''<WH>'', [''why'', ''how'', ''what'', ''who''])]"

text \<open>\<open>xs or d\<close> on lists.\<close>

definition or_else :: "'a list \<Rightarrow> 'a list \<Rightarrow> 'a list" where
  "or_else xs d = (if xs = [] then d else xs)"

text \<open>
  \<open>_choose_for_pos\<close> gets the first component of the tuple, whatever it is. The test
  \<open>slot in self.functional_words\<close> hashes it, which raises \<open>TypeError\<close> for a value that
  cannot be hashed; a value that is not a string is no key of the dict and equals none of
  the slot names, so it falls through to the empty string.
\<close>

definition choose_for_pos :: "Lexicon \<Rightarrow> rng \<Rightarrow> pyval \<Rightarrow> error + (string \<times> rng)" where
  "choose_for_pos lx rs slot =
     (case slot of
        PyDict d \<Rightarrow> Inl TypeError
      | PyUnhashable \<Rightarrow> Inl TypeError
      | PyHashable t \<Rightarrow> Inr ([], rs)
      | PyStr s \<Rightarrow>
          (case map_of functional_words s of
             Some ws \<Rightarrow> choice rs ws
           | None \<Rightarrow>
               if s = ''<DET>'' then choice rs [''the'', ''a'', ''an'']
               else if s = ''<NOUN>'' then choice rs (or_else (words_for_pos lx ''NOUN'') [''cat''])
               else if s = ''<VERB>'' then choice rs (or_else (words_for_pos lx ''VERB'') [''see''])
               else if s = ''<ADJ>'' then choice rs (or_else (words_for_pos lx ''ADJ'') [''happy''])
               else Inr ([], rs)))"

text \<open>
  The text of the value that a leaf node keeps as its symbol. A value that cannot be hashed
  never gets there.
\<close>

fun node_symbol :: "pyval \<Rightarrow> string" where
  "node_symbol (PyStr s) = s"
| "node_symbol (PyHashable t) = t"
| "node_symbol (PyDict d) = []"
| "node_symbol PyUnhashable = []"

text \<open>
  \<open>_expand\<close> recurses as deep as the grammar sends it. The first argument bounds the depth
  of the recursion: \<open>None\<close> says that the expansion needs a deeper recursion than that.
  \<open>expand_syms\<close> is the loop over the symbols of the chosen alternative, with the lists
  \<open>children\<close> and \<open>tokens\<close> built so far. Every tuple goes to the slot branch, where
  \<open>sym[0]\<close> raises \<open>IndexError\<close> on the empty tuple.
\<close>

fun expand :: "nat \<Rightarrow> Grammar \<Rightarrow> Lexicon \<Rightarrow> rng \<Rightarrow> string
      \<Rightarrow> (error + (DerivationNode \<times> string list \<times> rng)) option"
and expand_syms :: "nat \<Rightarrow> Grammar \<Rightarrow> Lexicon \<Rightarrow> rng \<Rightarrow> symbol list
      \<Rightarrow> DerivationNode list \<Rightarrow> string list
      \<Rightarrow> (error + (DerivationNode list \<times> string list \<times> rng)) option" where
  "expand 0 gr lx rs sy = None"
| "expand (Suc n) gr lx rs sy =
     (if \<not> has gr sy then Some (Inr (DerivationNode sy [] (Some sy), [sy], rs))
      else
        (case map_of (rules gr) sy of
           None \<Rightarrow> Some (Inl KeyError)
         | Some rule \<Rightarrow>
             (case choice rs (rhs rule) of
                Inl e \<Rightarrow> Some (Inl e)
              | Inr (alt, rs1) \<Rightarrow>
                  (case expand_syms n gr lx rs1 alt [] [] of
                     None \<Rightarrow> None
                   | Some (Inl e) \<Rightarrow> Some (Inl e)
                   | Some (Inr (chs, toks, rs2)) \<Rightarrow>
                       Some (Inr (DerivationNode sy chs None, toks, rs2))))))"
| "expand_syms n gr lx rs [] chs toks = Some (Inr (chs, toks, rs))"
| "expand_syms n gr lx rs (Tup [] # syms) chs toks = Some (Inl IndexError)"
| "expand_syms n gr lx rs (Tup (v # vs) # syms) chs toks =
     (case choose_for_pos lx rs v of
        Inl e \<Rightarrow> Some (Inl e)
      | Inr (word, rs1) \<Rightarrow>
          expand_syms n gr lx rs1 syms (chs @ [DerivationNode (node_symbol v) [] (Some word)])
            (toks @ [word]))"
| "expand_syms n gr lx rs (Str s # syms) chs toks =
     (case expand n gr lx rs s of
        None \<Rightarrow> None
      | Some (Inl e) \<Rightarrow> Some (Inl e)
      | Some (Inr (node, toks1, rs1)) \<Rightarrow>
          expand_syms n gr lx rs1 syms (chs @ [node]) (toks @ toks1))"
| "expand_syms n gr lx rs (Other # syms) chs toks =
     Some (Inl (ValueError ''Unknown symbol type''))"

text \<open>
  The token that one turn of the loop of \<open>_postprocess\<close> appends at index \<open>i\<close>.
\<close>

definition article_at :: "string list \<Rightarrow> nat \<Rightarrow> string" where
  "article_at tokens i =
     (let tok = tokens ! i in
      if lower tok = ''a'' \<and> i + 1 < length tokens then
        (let nxt = lower (tokens ! (i + 1)) in
         if nxt \<noteq> [] \<and> hd nxt \<in> set ''aeiou'' then ''an'' else tok)
      else tok)"

function postprocess_loop :: "string list \<Rightarrow> nat \<Rightarrow> string list \<Rightarrow> string list" where
  "postprocess_loop tokens i out =
     (if i < length tokens then postprocess_loop tokens (i + 1) (out @ [article_at tokens i])
      else out)"
  by pat_completeness auto
termination
  by (relation "measure (\<lambda>(tokens, i, out). length tokens - i)") auto

declare postprocess_loop.simps [simp del]

definition postprocess :: "string list \<Rightarrow> string list" where
  "postprocess tokens = postprocess_loop tokens 0 []"

definition linearize :: "string list \<Rightarrow> error + string" where
  "linearize tokens =
     (if tokens = [] then Inr []
      else
        (let s = join '' '' tokens;
             s1 = replace '' ,'' '','' (replace '' ?'' ''?'' s)
         in if s1 = [] then Inl IndexError
            else
              (let s2 = upper [hd s1] @ tl s1
               in Inr (if \<not> endswith_any s2 [''.'', ''?'', ''!''] then s2 @ ''.'' else s2))))"

text \<open>The loop of \<open>generate\<close> over the tokens, from the field reached so far.\<close>

fun valence_loop :: "Lexicon \<Rightarrow> EmotionField \<Rightarrow> string list \<Rightarrow> EmotionField" where
  "valence_loop lx field [] = field"
| "valence_loop lx field (t # ts) = valence_loop lx (combine field (from_word (lower t) lx)) ts"

definition generate :: "nat \<Rightarrow> Grammar \<Rightarrow> Lexicon \<Rightarrow> rng
      \<Rightarrow> (error + (string \<times> DerivationNode \<times> EmotionField \<times> rng)) option" where
  "generate n gr lx rs =
     (case expand n gr lx rs (start gr) of
        None \<Rightarrow> None
      | Some (Inl e) \<Rightarrow> Some (Inl e)
      | Some (Inr (tree, tokens, rs1)) \<Rightarrow>
          (let tokens1 = postprocess tokens;
               field = valence_loop lx (EmotionField (Finite 0)) tokens1
           in case linearize tokens1 of
                Inl e \<Rightarrow> Some (Inl e)
              | Inr sent \<Rightarrow> Some (Inr (sent, tree, field, rs1))))"

section \<open>Notions of the specification\<close>

text \<open>
  A token begins with a vowel letter, case-insensitively: it is not empty and its first
  character, lowercased, is one of \<open>a e i o u\<close>.
\<close>

definition vowel_initial :: "string \<Rightarrow> bool" where
  "vowel_initial t = (t \<noteq> [] \<and> lower_char (hd t) \<in> set ''aeiou'')"

text \<open>
  The polarity that a token contributes: that of the entry stored under its lowercased
  form, and 0.0 when the lexicon has no such entry.
\<close>

definition word_polarity :: "Lexicon \<Rightarrow> string \<Rightarrow> pyfloat" where
  "word_polarity lx t =
     (case map_of lx (lower t) of Some e \<Rightarrow> polarity e | None \<Rightarrow> Finite 0)"

text \<open>The list that a slot name draws from, if it draws.\<close>

definition slot_words :: "Lexicon \<Rightarrow> string \<Rightarrow> string list option" where
  "slot_words lx s =
     (case map_of functional_words s of
        Some ws \<Rightarrow> Some ws
      | None \<Rightarrow>
          if s = ''<DET>'' then Some [''the'', ''a'', ''an'']
          else if s = ''<NOUN>'' then Some (or_else (words_for_pos lx ''NOUN'') [''cat''])
          else if s = ''<VERB>'' then Some (or_else (words_for_pos lx ''VERB'') [''see''])
          else if s = ''<ADJ>'' then Some (or_else (words_for_pos lx ''ADJ'') [''happy''])
          else None)"

text \<open>
  One turn of the loop over the symbols of an alternative: the node and the tokens that
  the symbol adds, or the error that it raises.
\<close>

definition expand_sym :: "nat \<Rightarrow> Grammar \<Rightarrow> Lexicon \<Rightarrow> rng \<Rightarrow> symbol
      \<Rightarrow> (error + (DerivationNode \<times> string list \<times> rng)) option" where
  "expand_sym n gr lx rs smb =
     (case smb of
        Str s \<Rightarrow> expand n gr lx rs s
      | Tup [] \<Rightarrow> Some (Inl IndexError)
      | Tup (v # vs) \<Rightarrow>
          (case choose_for_pos lx rs v of
             Inl e \<Rightarrow> Some (Inl e)
           | Inr (word, rs1) \<Rightarrow>
               Some (Inr (DerivationNode (node_symbol v) [] (Some word), [word], rs1)))
      | Other \<Rightarrow> Some (Inl (ValueError ''Unknown symbol type'')))"

text \<open>
  A symbol is well formed when it is a string or a pair of a slot name and an attribute
  map; a rule set is well formed when every symbol of every alternative is.
\<close>

fun wf_symbol :: "symbol \<Rightarrow> bool" where
  "wf_symbol (Str s) = True"
| "wf_symbol (Tup [PyStr slot, PyDict attrs]) = True"
| "wf_symbol smb = False"

definition wf_grammar :: "Grammar \<Rightarrow> bool" where
  "wf_grammar gr = list_all (\<lambda>(l, r). list_all (list_all wf_symbol) (rhs r)) (rules gr)"

text \<open>A rule set with a symbol that is neither a string nor a tuple, after a literal.\<close>

definition malformed_grammar :: Grammar where
  "malformed_grammar = add_rule (Grammar [] ''S'') ''S'' [[Str ''hello'', Other, Str ''S'']]"

text \<open>
  A rule set with the tuple \<open>(42, {})\<close>, which is no pair of a slot name and an attribute
  map, after a literal.
\<close>

definition odd_tuple_grammar :: Grammar where
  "odd_tuple_grammar =
     add_rule (Grammar [] ''S'') ''S'' [[Str ''hello'', Tup [PyHashable ''42'', PyDict []]]]"

text \<open>
  Drawing uniformly from a list, given the choice as a function of the value drawn: the
  choice repeats with the length of the list, and among the draws below the length each
  word is chosen by as many draws as it has places in the list.
\<close>

definition uniform_draw :: "(nat \<Rightarrow> 'a) \<Rightarrow> 'a list \<Rightarrow> bool" where
  "uniform_draw f xs =
     (xs \<noteq> [] \<and> (\<forall>d. f (d + length xs) = f d) \<and>
      (\<forall>w. card {d. d < length xs \<and> f d = w} = count_list xs w))"

text \<open>The word that a slot resolves to when the next draw is \<open>d\<close>.\<close>

definition chosen :: "Lexicon \<Rightarrow> string \<Rightarrow> rng \<Rightarrow> nat \<Rightarrow> string" where
  "chosen lx slot rs d =
     (case choose_for_pos lx (d ## rs) (PyStr slot) of Inr (w, rs1) \<Rightarrow> w | Inl e \<Rightarrow> [])"

text \<open>A word that is not empty and begins with an ASCII letter.\<close>

definition alpha_word :: "string \<Rightarrow> bool" where
  "alpha_word w = (w \<noteq> [] \<and> isalpha (hd w))"

text \<open>Every NOUN and every VERB of the lexicon is such a word.\<close>

definition lexicon_alpha :: "Lexicon \<Rightarrow> bool" where
  "lexicon_alpha lx =
     list_all (\<lambda>(w, e). pos e = ''NOUN'' \<or> pos e = ''VERB'' \<longrightarrow> w \<noteq> [] \<and> isalpha (hd w)) lx"

text \<open>No polarity of the lexicon is NaN.\<close>

definition lexicon_numeric :: "Lexicon \<Rightarrow> bool" where
  "lexicon_numeric lx = list_all (\<lambda>(w, e). polarity e \<noteq> NaN) lx"

text \<open>
  The nonterminals of the seed grammar that can stand first in a sentence, and the slots
  that can give its first token.
\<close>

definition leading :: "string list" where
  "leading = [''S'', ''CLAUSE'', ''NP'', ''VP'', ''Q'', ''IMP'', ''DET'', ''N'', ''V'', ''AUX'', ''WH'']"

definition leading_slots :: "string list" where
  "leading_slots = [''<DET>'', ''<NOUN>'', ''<VERB>'', ''<AUX>'', ''<WH>'']"

definition leading_alt :: "symbol list \<Rightarrow> bool" where
  "leading_alt alt =
     (case alt of
        Str s1 # rest \<Rightarrow> s1 \<in> set leading
      | Tup (PyStr slot # vs) # rest \<Rightarrow> slot \<in> set leading_slots
      | _ \<Rightarrow> False)"

text \<open>
  A depth of recursion that is enough for each seed nonterminal other than \<open>S\<close>, \<open>Q\<close> and
  \<open>?\<close>; every symbol of its alternatives needs less.
\<close>

definition seed_depth :: "(string \<times> nat) list" where
  "seed_depth =
     [(''DET'', 1), (''N'', 1), (''V'', 1), (''ADJ'', 1), (''P'', 1), (''AUX'', 1), (''WH'', 1),
      (''NP'', 2), (''VP'', 3), (''PP'', 3), (''IMP'', 3), (''CLAUSE'', 4)]"

definition shallower :: "nat \<Rightarrow> symbol \<Rightarrow> bool" where
  "shallower k smb =
     (case smb of
        Str s \<Rightarrow> (case map_of seed_depth s of None \<Rightarrow> False | Some j \<Rightarrow> j < k)
      | Tup vs \<Rightarrow> True
      | Other \<Rightarrow> False)"

text \<open>What a caller sees of a result: the text, the pretty-printed tree and the valence.\<close>

definition observe :: "(error + (string \<times> DerivationNode \<times> EmotionField \<times> rng)) option
      \<Rightarrow> (error + (string \<times> string \<times> pyfloat)) option" where
  "observe r =
     map_option (map_sum id (\<lambda>(sent, tree, field, rs). (sent, pretty tree 0, valence field))) r"

text \<open>
  \<open>SentenceGenerator(g, lex, seed=s).generate()\<close>: the generator is constructed and then
  run, with no other draw from the shared stream in between.
\<close>

definition construct_and_generate ::
  "(int \<Rightarrow> rng) \<Rightarrow> int \<Rightarrow> nat \<Rightarrow> Grammar \<Rightarrow> Lexicon \<Rightarrow> rng
     \<Rightarrow> (error + (string \<times> DerivationNode \<times> EmotionField \<times> rng)) option" where
  "construct_and_generate prng seed n gr lx shared =
     generate n gr lx (SentenceGenerator_init prng (Some seed) shared)"

text \<open>
  Two generators are constructed with the same seed, and then each is run once: the
  second run draws from the shared stream where the first one left it. The result is the
  pair of what the two runs show, when the first one returns.
\<close>

definition construct_both_then_generate ::
  "(int \<Rightarrow> rng) \<Rightarrow> int \<Rightarrow> nat \<Rightarrow> Grammar \<Rightarrow> Lexicon \<Rightarrow> rng
     \<Rightarrow> ((error + (string \<times> string \<times> pyfloat)) option
          \<times> (error + (string \<times> string \<times> pyfloat)) option) option" where
  "construct_both_then_generate prng seed n gr lx shared =
     (let shared1 = SentenceGenerator_init prng (Some seed) shared;
          shared2 = SentenceGenerator_init prng (Some seed) shared1
      in case generate n gr lx shared2 of
           Some (Inr (sent, tree, field, shared3)) \<Rightarrow>
             Some (observe (Some (Inr (sent, tree, field, shared3))),
                   observe (generate n gr lx shared3))
         | _ \<Rightarrow> None)"

text \<open>
  A stream of draws for each seed, standing for the library's generator in the examples:
  the imperative with a single verb, twice, the verbs picked from the seed.
\<close>

definition example_prng :: "int \<Rightarrow> rng" where
  "example_prng seed =
     [2, 1, 0, nat (seed mod 7), 2, 1, 0, nat ((seed + 1) mod 7)] @- sconst 0"

text \<open>
  Two lexicons with the same entries, stored in a different order: \<open>ant\<close> and \<open>bee\<close> are
  added as verbs, one first or the other.
\<close>

definition lexicon_ant_bee :: Lexicon where
  "lexicon_ant_bee =
     add (add Lexicon_init ''ant'' ''VERB'' (Finite 0)) ''bee'' ''VERB'' (Finite 0)"

definition lexicon_bee_ant :: Lexicon where
  "lexicon_bee_ant =
     add (add Lexicon_init ''bee'' ''VERB'' (Finite 0)) ''ant'' ''VERB'' (Finite 0)"

section \<open>Characters and case\<close>

lemma lower_char_fix: "c \<notin> set upper_letters \<Longrightarrow> lower_char c = c"
  unfolding lower_char_def upper_letters_def lower_letters_def by simp

lemma lower_char_range: "c \<in> set upper_letters \<Longrightarrow> lower_char c \<in> set lower_letters"
  unfolding lower_char_def upper_letters_def lower_letters_def by auto

lemma lower_not_upper: "d \<in> set lower_letters \<Longrightarrow> d \<notin> set upper_letters"
  unfolding upper_letters_def lower_letters_def by auto

lemma lower_char_idem: "lower_char (lower_char c) = lower_char c"
  by (cases "c \<in> set upper_letters")
     (simp_all add: lower_char_fix lower_char_range lower_not_upper)

lemma lower_idem: "lower (lower s) = lower s"
  by (simp add: lower_def lower_char_idem)

lemma upper_char_range: "c \<in> set lower_letters \<Longrightarrow> upper_char c \<in> set upper_letters"
  unfolding upper_char_def upper_letters_def lower_letters_def by auto

lemma upper_char_fix: "c \<notin> set lower_letters \<Longrightarrow> upper_char c = c"
  unfolding upper_char_def upper_letters_def lower_letters_def by simp

lemma isupper_upper_char: "isalpha c \<Longrightarrow> isupper (upper_char c)"
  unfolding isalpha_def isupper_def
  by (cases "c \<in> set lower_letters") (auto simp: upper_char_range upper_char_fix)

lemma lower_Nil_iff: "lower t = [] \<longleftrightarrow> t = []"
  by (simp add: lower_def)

lemma hd_lower: "t \<noteq> [] \<Longrightarrow> hd (lower t) = lower_char (hd t)"
  by (simp add: lower_def hd_map)

section \<open>The post-processing loop\<close>

lemma postprocess_loop_eq:
  "postprocess_loop ts i out = out @ map (article_at ts) [i..<length ts]"
proof (induction ts i out rule: postprocess_loop.induct)
  case (1 tokens i out)
  show ?case
  proof (cases "i < length tokens")
    case True
    then show ?thesis
      using "1.IH" by (subst postprocess_loop.simps) (simp add: upt_conv_Cons)
  next
    case False
    then show ?thesis by (subst postprocess_loop.simps) simp
  qed
qed

lemma postprocess_eq: "postprocess ts = map (article_at ts) [0..<length ts]"
  by (simp add: postprocess_def postprocess_loop_eq)

lemma length_postprocess: "length (postprocess ts) = length ts"
  by (simp add: postprocess_eq)

lemma postprocess_nth: "i < length ts \<Longrightarrow> postprocess ts ! i = article_at ts i"
  by (simp add: postprocess_eq)

lemma article_at_eq:
  "article_at ts i =
     (if lower (ts ! i) = ''a'' \<and> Suc i < length ts \<and> vowel_initial (ts ! Suc i) then ''an''
      else ts ! i)"
  unfolding article_at_def vowel_initial_def Let_def
  by (cases "ts ! Suc i = []") (simp_all add: lower_Nil_iff hd_lower)

lemmas case_eval = lower_def lower_char_def upper_def upper_char_def lower_letters_def
  upper_letters_def

lemmas postprocess_eval = postprocess_def postprocess_loop.simps article_at_def case_eval

section \<open>Evaluation on concrete inputs\<close>

lemma expand_numeral: "expand (numeral k) gr lx rs sy = 
     (if \<not> has gr sy then Some (Inr (DerivationNode sy [] (Some sy), [sy], rs))
      else
        (case map_of (rules gr) sy of
           None \<Rightarrow> Some (Inl KeyError)
         | Some rule \<Rightarrow>
             (case choice rs (rhs rule) of
                Inl e \<Rightarrow> Some (Inl e)
              | Inr (alt, rs1) \<Rightarrow>
                  (case expand_syms (pred_numeral k) gr lx rs1 alt [] [] of
                     None \<Rightarrow> None
                   | Some (Inl e) \<Rightarrow> Some (Inl e)
                   | Some (Inr (chs, toks, rs2)) \<Rightarrow>
                       Some (Inr (DerivationNode sy chs None, toks, rs2))))))"
  by (simp add: numeral_eq_Suc)

lemmas choose_eval = choose_for_pos_def functional_words_def choice_def or_else_def

lemmas generate_eval = generate_def expand_numeral Grammar_init_def seed_rules_def add_rule_def
  has_def choose_eval words_for_pos_def Lexicon_init_def postprocess_eval linearize_def
  replace.simps endswith_any_def endswith_def from_word_def get_def combine_def

lemmas lexicon_eval = add_def get_def words_for_pos_def Lexicon_init_def case_eval

section \<open>The loop over an alternative\<close>

lemma expand_syms_Cons:
  "expand_syms n gr lx rs (smb # syms) chs toks =
     (case expand_sym n gr lx rs smb of
        None \<Rightarrow> None
      | Some (Inl e) \<Rightarrow> Some (Inl e)
      | Some (Inr (node, toks1, rs1)) \<Rightarrow>
          expand_syms n gr lx rs1 syms (chs @ [node]) (toks @ toks1))"
proof (cases smb)
  case (Str s)
  then show ?thesis by (simp add: expand_sym_def split: option.splits sum.splits)
next
  case (Tup vs)
  then show ?thesis by (cases vs) (simp_all add: expand_sym_def split: sum.splits)
next
  case Other
  then show ?thesis by (simp add: expand_sym_def)
qed

lemma expand_syms_append:
  "expand_syms n gr lx rs (pre @ post) chs toks =
     (case expand_syms n gr lx rs pre chs toks of
        None \<Rightarrow> None
      | Some (Inl e) \<Rightarrow> Some (Inl e)
      | Some (Inr (chs1, toks1, rs1)) \<Rightarrow> expand_syms n gr lx rs1 post chs1 toks1)"
proof (induction pre arbitrary: rs chs toks)
  case Nil
  show ?case by simp
next
  case (Cons smb pre)
  show ?case
  proof (cases "expand_sym n gr lx rs smb")
    case None
    then show ?thesis by (simp add: expand_syms_Cons)
  next
    case (Some a)
    show ?thesis
    proof (cases a)
      case (Inl e)
      then show ?thesis using Some by (simp add: expand_syms_Cons)
    next
      case (Inr p)
      obtain node t1 rs1 where "p = (node, t1, rs1)" by (cases p)
      then show ?thesis using Some Inr Cons.IH by (simp add: expand_syms_Cons)
    qed
  qed
qed

lemma expand_syms_reach:
  assumes "expand_syms n gr lx rs pre chs toks = Some (Inr (chs1, toks1, rs1))"
  shows "expand_syms n gr lx rs (pre @ smb # post) chs toks =
     (case expand_sym n gr lx rs1 smb of
        None \<Rightarrow> None
      | Some (Inl e) \<Rightarrow> Some (Inl e)
      | Some (Inr (node, t1, rs2)) \<Rightarrow>
          expand_syms n gr lx rs2 post (chs1 @ [node]) (toks1 @ t1))"
  using assms by (simp add: expand_syms_append expand_syms_Cons)

section \<open>Errors of the expansion\<close>

lemma has_iff: "has gr s \<longleftrightarrow> map_of (rules gr) s \<noteq> None"
  by (simp add: has_def map_of_eq_None_iff)

lemma choice_Inr: "choice rs xs = Inr (x, rs1) \<Longrightarrow> x \<in> set xs \<and> rs1 = stl rs"
  by (auto simp: choice_def split: if_splits)

lemma choice_Inl: "choice rs xs = Inl e \<Longrightarrow> e = IndexError \<and> xs = []"
  by (auto simp: choice_def split: if_splits)

lemma choose_for_pos_total: "\<exists>w rs1. choose_for_pos lx rs (PyStr s) = Inr (w, rs1)"
  by (simp add: choose_for_pos_def functional_words_def choice_def or_else_def)

lemma wf_symbol_cases:
  assumes "wf_symbol smb"
  obtains (str) s where "smb = Str s"
    | (pair) slot attrs where "smb = Tup [PyStr slot, PyDict attrs]"
  using assms by (auto elim: wf_symbol.elims(2))

lemma wf_grammar_alt:
  "wf_grammar gr \<Longrightarrow> map_of (rules gr) sy = Some rule \<Longrightarrow> alt \<in> set (rhs rule)
     \<Longrightarrow> list_all wf_symbol alt"
  by (auto simp: wf_grammar_def list_all_iff dest!: map_of_SomeD)

lemma expand_sym_wf_error:
  assumes "wf_symbol smb" "expand_sym n gr lx rs smb = Some (Inl e)"
  shows "\<exists>s. smb = Str s \<and> expand n gr lx rs s = Some (Inl e)"
  using assms(1)
proof (cases rule: wf_symbol_cases)
  case (str s)
  then show ?thesis using assms(2) by (simp add: expand_sym_def)
next
  case (pair slot attrs)
  obtain w rs1 where "choose_for_pos lx rs (PyStr slot) = Inr (w, rs1)"
    using choose_for_pos_total by blast
  then show ?thesis using assms(2) pair by (simp add: expand_sym_def)
qed

lemma expand_syms_error_step:
  assumes ih: "\<And>rs s e. expand n gr lx rs s = Some (Inl e) \<Longrightarrow> Q e"
    and "list_all wf_symbol syms" "expand_syms n gr lx rs syms chs toks = Some (Inl e)"
  shows "Q e"
  using assms(2,3)
proof (induction syms arbitrary: rs chs toks)
  case Nil
  then show ?case by simp
next
  case (Cons smb syms)
  show ?case
  proof (cases "expand_sym n gr lx rs smb")
    case None
    then show ?thesis using Cons.prems(2) by (simp add: expand_syms_Cons)
  next
    case (Some a)
    show ?thesis
    proof (cases a)
      case (Inl e1)
      then have e1: "e1 = e" using Cons.prems(2) Some by (simp add: expand_syms_Cons)
      have "wf_symbol smb" using Cons.prems(1) by simp
      then obtain s where "expand n gr lx rs s = Some (Inl e1)"
        using expand_sym_wf_error Some Inl by blast
      then show ?thesis using ih e1 by simp
    next
      case (Inr p)
      obtain node t1 rs1 where "p = (node, t1, rs1)" by (cases p)
      then have "expand_syms n gr lx rs1 syms (chs @ [node]) (toks @ t1) = Some (Inl e)"
        using Cons.prems(2) Some Inr by (simp add: expand_syms_Cons)
      then show ?thesis using Cons.IH Cons.prems(1) by simp
    qed
  qed
qed

lemma expand_error:
  assumes wf: "wf_grammar gr"
  shows "expand n gr lx rs sy = Some (Inl e)
     \<Longrightarrow> e = IndexError \<and> (\<exists>r \<in> snd ` set (rules gr). rhs r = [])"
proof (induction n arbitrary: rs sy e)
  case 0
  then show ?case by simp
next
  case (Suc n)
  from Suc.prems have h: "has gr sy" by (auto split: if_splits)
  then obtain rule where r: "map_of (rules gr) sy = Some rule" by (auto simp: has_iff)
  show ?case
  proof (cases "choice rs (rhs rule)")
    case (Inl e1)
    then have "e1 = IndexError" "rhs rule = []" by (auto dest: choice_Inl)
    moreover have "rule \<in> snd ` set (rules gr)" using r by (force dest: map_of_SomeD)
    ultimately show ?thesis using Suc.prems h r Inl by auto
  next
    case (Inr p)
    obtain alt rs1 where p: "p = (alt, rs1)" by (cases p)
    have "alt \<in> set (rhs rule)" using Inr p by (auto dest: choice_Inr)
    then have w: "list_all wf_symbol alt" using wf_grammar_alt [OF wf r] by simp
    have e: "expand_syms n gr lx rs1 alt [] [] = Some (Inl e)"
      using Suc.prems h r Inr p by (auto split: option.splits sum.splits)
    show ?thesis
      by (rule expand_syms_error_step
          [where Q = "\<lambda>e. e = IndexError \<and> (\<exists>r \<in> snd ` set (rules gr). rhs r = [])", OF Suc.IH w e])
  qed
qed

lemma expand_syms_error:
  assumes "wf_grammar gr" "list_all wf_symbol syms"
    "expand_syms n gr lx rs syms chs toks = Some (Inl e)"
  shows "e = IndexError \<and> (\<exists>r \<in> snd ` set (rules gr). rhs r = [])"
  by (rule expand_syms_error_step
      [where Q = "\<lambda>e. e = IndexError \<and> (\<exists>r \<in> snd ` set (rules gr). rhs r = [])",
        OF expand_error [OF assms(1)] assms(2,3)])

section \<open>The seed grammar\<close>

lemma rules_Grammar_init:
  "rules Grammar_init =
    [(''S'', Rule ''S'' [[Str ''CLAUSE''], [Str ''Q''], [Str ''IMP'']]),
     (''CLAUSE'', Rule ''CLAUSE'' [[Str ''NP'', Str ''VP''], [Str ''NP'', Str ''VP'', Str ''PP'']]),
     (''NP'', Rule ''NP'' [[Str ''DET'', Str ''N''], [Str ''DET'', Str ''ADJ'', Str ''N''], [Str ''N'']]),
     (''VP'', Rule ''VP'' [[Str ''V'', Str ''NP''], [Str ''V''], [Str ''V'', Str ''ADJ'']]),
     (''PP'', Rule ''PP'' [[Str ''P'', Str ''NP'']]),
     (''Q'', Rule ''Q'' [[Str ''AUX'', Str ''NP'', Str ''V'', Str ''NP'', Str ''?''],
                        [Str ''WH'', Str ''V'', Str ''NP'', Str ''?'']]),
     (''IMP'', Rule ''IMP'' [[Str ''V'', Str ''NP''], [Str ''V'']]),
     (''DET'', Rule ''DET'' [[Tup [PyStr ''<DET>'', PyDict []]]]),
     (''N'', Rule ''N'' [[Tup [PyStr ''<NOUN>'', PyDict []]]]),
     (''V'', Rule ''V'' [[Tup [PyStr ''<VERB>'', PyDict []]]]),
     (''ADJ'', Rule ''ADJ'' [[Tup [PyStr ''<ADJ>'', PyDict []]]]),
     (''P'', Rule ''P'' [[Tup [PyStr ''<P>'', PyDict []]]]),
     (''AUX'', Rule ''AUX'' [[Tup [PyStr ''<AUX>'', PyDict []]]]),
     (''WH'', Rule ''WH'' [[Tup [PyStr ''<WH>'', PyDict []]]]),
     (''?'', Rule ''?'' [[Str ''?'']])]"
  by (simp add: Grammar_init_def seed_rules_def add_rule_def)

lemma start_Grammar_init: "start Grammar_init = ''S''"
  by (simp add: Grammar_init_def seed_rules_def add_rule_def)

lemma wf_Grammar_init: "wf_grammar Grammar_init"
  by (simp add: wf_grammar_def rules_Grammar_init)

lemma seed_no_error: "expand n Grammar_init lx rs sy \<noteq> Some (Inl e)"
proof
  assume a: "expand n Grammar_init lx rs sy = Some (Inl e)"
  have "\<exists>r \<in> snd ` set (rules Grammar_init). rhs r = []"
    using expand_error [OF wf_Grammar_init a] by (rule conjunct2)
  then show False by (simp add: rules_Grammar_init)
qed

lemma seed_syms_no_error:
  "list_all wf_symbol syms \<Longrightarrow> expand_syms n Grammar_init lx rs syms chs toks \<noteq> Some (Inl e)"
proof
  assume a: "list_all wf_symbol syms"
    and b: "expand_syms n Grammar_init lx rs syms chs toks = Some (Inl e)"
  have "\<exists>r \<in> snd ` set (rules Grammar_init). rhs r = []"
    using expand_syms_error [OF wf_Grammar_init a b] by (rule conjunct2)
  then show False by (simp add: rules_Grammar_init)
qed

lemma expand_syms_stuck:
  "Str s \<in> set syms \<Longrightarrow> (\<And>rs. expand n gr lx rs s = None)
     \<Longrightarrow> expand_syms n gr lx rs syms chs toks \<noteq> Some (Inr r)"
proof (induction syms arbitrary: rs chs toks)
  case Nil
  then show ?case by simp
next
  case (Cons smb syms)
  show ?case
  proof (cases "smb = Str s")
    case True
    then have "expand_sym n gr lx rs smb = None" using Cons.prems(2) by (simp add: expand_sym_def)
    then show ?thesis by (simp add: expand_syms_Cons)
  next
    case False
    then have "Str s \<in> set syms" using Cons.prems(1) by auto
    then have "expand_syms n gr lx rs1 syms chs1 toks1 \<noteq> Some (Inr r)" for rs1 chs1 toks1
      using Cons.IH Cons.prems(2) by blast
    then show ?thesis by (simp add: expand_syms_Cons split: option.splits sum.splits)
  qed
qed

lemma seed_syms_stuck:
  assumes "Str s \<in> set syms" "list_all wf_symbol syms"
    "\<And>rs. expand n Grammar_init lx rs s = None"
  shows "expand_syms n Grammar_init lx rs syms chs toks = None"
proof (cases "expand_syms n Grammar_init lx rs syms chs toks")
  case None
  then show ?thesis .
next
  case (Some a)
  then show ?thesis
    using expand_syms_stuck [OF assms(1) assms(3)] seed_syms_no_error [OF assms(2)]
    by (cases a) auto
qed

lemma expand_question_mark: "expand n Grammar_init lx rs ''?'' = None"
proof (induction n arbitrary: rs)
  case 0
  show ?case by simp
next
  case (Suc n)
  have "expand_syms n Grammar_init lx (stl rs) [Str ''?''] [] [] = None"
    by (simp add: Suc)
  then show ?case
    by (simp add: has_def rules_Grammar_init choice_def)
qed

lemma expand_Q: "expand n Grammar_init lx rs ''Q'' = None"
proof (cases n)
  case 0
  then show ?thesis by simp
next
  case (Suc k)
  have q: "map_of (rules Grammar_init) ''Q'' =
      Some (Rule ''Q'' [[Str ''AUX'', Str ''NP'', Str ''V'', Str ''NP'', Str ''?''],
                        [Str ''WH'', Str ''V'', Str ''NP'', Str ''?'']])"
    by (simp add: rules_Grammar_init)
  have h: "has Grammar_init ''Q''" by (simp add: has_iff q)
  obtain alt where c: "choice rs [[Str ''AUX'', Str ''NP'', Str ''V'', Str ''NP'', Str ''?''],
                        [Str ''WH'', Str ''V'', Str ''NP'', Str ''?'']] = Inr (alt, stl rs)"
    by (simp add: choice_def)
  then have "alt \<in> {[Str ''AUX'', Str ''NP'', Str ''V'', Str ''NP'', Str ''?''],
                        [Str ''WH'', Str ''V'', Str ''NP'', Str ''?'']}"
    by (auto dest: choice_Inr)
  then have "Str ''?'' \<in> set alt" "list_all wf_symbol alt" by auto
  then have "expand_syms k Grammar_init lx (stl rs) alt [] [] = None"
    by (rule seed_syms_stuck) (rule expand_question_mark)
  then show ?thesis using Suc h q c by simp
qed

section \<open>The first token of a sentence\<close>

lemma words_for_pos_alpha:
  assumes "lexicon_alpha lx" "w \<in> set (words_for_pos lx tag)" "tag = ''NOUN'' \<or> tag = ''VERB''"
  shows "alpha_word w"
proof -
  have u: "upper tag = tag" using assms(3) by (auto simp: case_eval)
  from assms(2) obtain e where "(w, e) \<in> set lx" "pos e = tag"
    by (auto simp: words_for_pos_def u)
  then show ?thesis using assms(1,3) by (auto simp: lexicon_alpha_def list_all_iff alpha_word_def)
qed

lemma choice_pred:
  assumes "choice rs xs = Inr (x, rs1)" "\<And>y. y \<in> set xs \<Longrightarrow> P y"
  shows "P x"
proof -
  have "x \<in> set xs" using choice_Inr [OF assms(1)] by (rule conjunct1)
  then show ?thesis by (rule assms(2))
qed

lemma alpha_fixed:
  "alpha_word ''the''" "alpha_word ''a''" "alpha_word ''an''" "alpha_word ''cat''" "alpha_word ''see''"
  "alpha_word ''does''" "alpha_word ''did''" "alpha_word ''will''"
  "alpha_word ''why''" "alpha_word ''how''" "alpha_word ''what''" "alpha_word ''who''"
  by (simp_all add: alpha_word_def isalpha_def lower_letters_def)

lemma choose_for_pos_alpha:
  assumes "lexicon_alpha lx" "slot \<in> set leading_slots"
    "choose_for_pos lx rs (PyStr slot) = Inr (w, rs1)"
  shows "alpha_word w"
proof -
  consider "slot = ''<DET>''" | "slot = ''<NOUN>''" | "slot = ''<VERB>''" | "slot = ''<AUX>''"
    | "slot = ''<WH>''"
    using assms(2) by (auto simp: leading_slots_def)
  then show ?thesis
  proof cases
    case 1
    then have "choice rs [''the'', ''a'', ''an''] = Inr (w, rs1)"
      using assms(3) by (simp add: choose_for_pos_def functional_words_def)
    then show ?thesis by (rule choice_pred) (auto simp: alpha_fixed)
  next
    case 2
    then have c: "choice rs (or_else (words_for_pos lx ''NOUN'') [''cat'']) = Inr (w, rs1)"
      using assms(3) by (simp add: choose_for_pos_def functional_words_def)
    show ?thesis
      by (rule choice_pred [OF c])
         (auto simp: or_else_def alpha_fixed split: if_splits
               intro: words_for_pos_alpha [OF assms(1)])
  next
    case 3
    then have c: "choice rs (or_else (words_for_pos lx ''VERB'') [''see'']) = Inr (w, rs1)"
      using assms(3) by (simp add: choose_for_pos_def functional_words_def)
    show ?thesis
      by (rule choice_pred [OF c])
         (auto simp: or_else_def alpha_fixed split: if_splits
               intro: words_for_pos_alpha [OF assms(1)])
  next
    case 4
    then have "choice rs [''does'', ''did'', ''will''] = Inr (w, rs1)"
      using assms(3) by (simp add: choose_for_pos_def functional_words_def)
    then show ?thesis by (rule choice_pred) (auto simp: alpha_fixed)
  next
    case 5
    then have "choice rs [''why'', ''how'', ''what'', ''who''] = Inr (w, rs1)"
      using assms(3) by (simp add: choose_for_pos_def functional_words_def)
    then show ?thesis by (rule choice_pred) (auto simp: alpha_fixed)
  qed
qed

lemma expand_syms_tokens:
  "expand_syms n gr lx rs syms chs toks = Some (Inr (chs1, toks1, rs1))
     \<Longrightarrow> \<exists>ext. toks1 = toks @ ext"
proof (induction syms arbitrary: rs chs toks)
  case Nil
  then show ?case by simp
next
  case (Cons smb syms)
  then obtain node t2 rs2 where
    "expand_syms n gr lx rs2 syms (chs @ [node]) (toks @ t2) = Some (Inr (chs1, toks1, rs1))"
    by (auto simp: expand_syms_Cons split: option.splits sum.splits)
  then obtain ext where "toks1 = (toks @ t2) @ ext" using Cons.IH by blast
  then show ?case by simp
qed

lemma seed_leading_all:
  "list_all (\<lambda>s. case map_of (rules Grammar_init) s of None \<Rightarrow> False
       | Some rule \<Rightarrow> list_all leading_alt (rhs rule)) leading"
  by (simp add: rules_Grammar_init leading_def leading_slots_def leading_alt_def)

lemma seed_leading:
  assumes "s \<in> set leading"
  shows "\<exists>rule. map_of (rules Grammar_init) s = Some rule \<and> (\<forall>alt \<in> set (rhs rule). leading_alt alt)"
  using seed_leading_all assms unfolding list_all_iff by (auto split: option.splits)

lemma leading_alt_cases:
  assumes "leading_alt alt"
  obtains (str) s1 rest where "alt = Str s1 # rest" "s1 \<in> set leading"
    | (tup) slot vs rest where "alt = Tup (PyStr slot # vs) # rest" "slot \<in> set leading_slots"
  using assms unfolding leading_alt_def by (auto split: list.splits symbol.splits pyval.splits)

lemma first_token:
  assumes lx: "lexicon_alpha lx"
  shows "s \<in> set leading \<Longrightarrow> expand n Grammar_init lx rs s = Some (Inr (tree, toks, rs1))
     \<Longrightarrow> toks \<noteq> [] \<and> alpha_word (hd toks)"
proof (induction n arbitrary: s rs tree toks rs1)
  case 0
  then show ?case by simp
next
  case (Suc n)
  obtain rule where r: "map_of (rules Grammar_init) s = Some rule"
    and la: "\<forall>alt \<in> set (rhs rule). leading_alt alt"
    using seed_leading [OF Suc.prems(1)] by blast
  then have h: "has Grammar_init s" by (simp add: has_iff)
  from Suc.prems(2) h r obtain alt rs2 chs where
    c: "choice rs (rhs rule) = Inr (alt, rs2)" and
    e: "expand_syms n Grammar_init lx rs2 alt [] [] = Some (Inr (chs, toks, rs1))"
    by (auto split: sum.splits option.splits)
  have "alt \<in> set (rhs rule)" using choice_Inr [OF c] by (rule conjunct1)
  then have "leading_alt alt" using la by blast
  then consider (str) s1 rest where "alt = Str s1 # rest" "s1 \<in> set leading"
    | (tup) slot vs rest where "alt = Tup (PyStr slot # vs) # rest" "slot \<in> set leading_slots"
    by (rule leading_alt_cases)
  then show ?case
  proof cases
    case str
    then obtain node t1 rs3 where
      e1: "expand n Grammar_init lx rs2 s1 = Some (Inr (node, t1, rs3))" and
      e2: "expand_syms n Grammar_init lx rs3 rest ([] @ [node]) ([] @ t1) = Some (Inr (chs, toks, rs1))"
      using e by (auto split: option.splits sum.splits)
    have "t1 \<noteq> [] \<and> alpha_word (hd t1)" using Suc.IH [OF str(2) e1] .
    moreover obtain ext where "toks = ([] @ t1) @ ext" using expand_syms_tokens [OF e2] by blast
    ultimately show ?thesis by simp
  next
    case tup
    then obtain w rs3 where
      e1: "choose_for_pos lx rs2 (PyStr slot) = Inr (w, rs3)" and
      e2: "expand_syms n Grammar_init lx rs3 rest ([] @ [DerivationNode slot [] (Some w)]) ([] @ [w])
             = Some (Inr (chs, toks, rs1))"
      using e by (auto split: sum.splits)
    have "alpha_word w" using choose_for_pos_alpha [OF lx tup(2) e1] .
    moreover obtain ext where "toks = ([] @ [w]) @ ext" using expand_syms_tokens [OF e2] by blast
    ultimately show ?thesis by simp
  qed
qed

section \<open>The valence loop\<close>

lemma from_word_lower: "valence (from_word (lower t) lx) = word_polarity lx t"
  by (simp add: from_word_def get_def word_polarity_def lower_idem)

lemma valence_loop_foldl:
  "valence_loop lx field ts =
     EmotionField (foldl (\<lambda>v t. ftanh (fadd v (word_polarity lx t))) (valence field) ts)"
  by (induction ts arbitrary: field) (simp_all add: combine_def from_word_lower)

section \<open>Linearization\<close>

lemma isalpha_not_space: "isalpha c \<Longrightarrow> c \<noteq> CHR '' ''"
  unfolding isalpha_def upper_letters_def lower_letters_def by auto

lemma alpha_word_an: "alpha_word ''an''"
  by (simp add: alpha_word_def isalpha_def lower_letters_def)

lemma article_at_alpha: "alpha_word (ts ! i) \<Longrightarrow> alpha_word (article_at ts i)"
  by (simp add: article_at_eq alpha_word_an)

lemma postprocess_first:
  assumes "ts \<noteq> []" "alpha_word (hd ts)"
  shows "postprocess ts \<noteq> [] \<and> alpha_word (hd (postprocess ts))"
proof -
  have l: "length (postprocess ts) = length ts" by (rule length_postprocess)
  then have ne: "postprocess ts \<noteq> []" using assms(1) by (metis length_0_conv)
  have "hd (postprocess ts) = postprocess ts ! 0" using ne by (simp add: hd_conv_nth)
  also have "\<dots> = article_at ts 0" using assms(1) by (simp add: postprocess_nth)
  finally have "hd (postprocess ts) = article_at ts 0" .
  moreover have "alpha_word (ts ! 0)" using assms by (simp add: hd_conv_nth)
  ultimately show ?thesis using ne by (simp add: article_at_alpha)
qed

lemma join_first: "t \<noteq> [] \<Longrightarrow> join sep (t # ts) \<noteq> [] \<and> hd (join sep (t # ts)) = hd t"
  by (cases ts) simp_all

lemma replace_first:
  assumes "old \<noteq> []" "s \<noteq> []" "hd s \<noteq> hd old"
  shows "replace old new s \<noteq> [] \<and> hd (replace old new s) = hd s"
proof -
  have "take (length old) s \<noteq> old"
  proof
    assume "take (length old) s = old"
    then have "hd (take (length old) s) = hd old" by simp
    moreover have "hd (take (length old) s) = hd s"
      using assms(1,2) by (cases s; cases old) simp_all
    ultimately show False using assms(3) by simp
  qed
  then show ?thesis using assms(1,2) by (subst (1 2) replace.simps) simp
qed

lemma endswith_single: "endswith s [c] \<Longrightarrow> s \<noteq> [] \<and> last s = c"
proof -
  assume a: "endswith s [c]"
  then have l: "1 \<le> length s" and d: "drop (length s - 1) s = [c]"
    by (simp_all add: endswith_def)
  from l have ne: "s \<noteq> []" by auto
  then have "length s - 1 < length s" by simp
  then have "last (drop (length s - 1) s) = last s" by (rule last_drop)
  then have "last s = last (drop (length s - 1) s)" by (rule sym)
  also have "\<dots> = c" unfolding d by simp
  finally have "last s = c" .
  with ne show ?thesis by (rule conjI)
qed

lemma linearize_first:
  assumes "ts \<noteq> []" "alpha_word (hd ts)"
  shows "\<exists>text. linearize ts = Inr text \<and> text \<noteq> [] \<and> isupper (hd text) \<and>
           last text \<in> {CHR ''.'', CHR ''?'', CHR ''!''}"
proof -
  obtain t rest where ts: "ts = t # rest" using assms(1) by (cases ts) auto
  then have t: "t \<noteq> []" "isalpha (hd t)" using assms(2) by (simp_all add: alpha_word_def)
  define s where "s = join '' '' ts"
  have s: "s \<noteq> []" "hd s = hd t" using join_first [OF t(1)] by (simp_all add: s_def ts)
  then have sp: "hd s \<noteq> CHR '' ''" using t(2) isalpha_not_space by simp
  define s0 where "s0 = replace '' ?'' ''?'' s"
  have s0: "s0 \<noteq> [] \<and> hd s0 = hd s"
    unfolding s0_def using s(1) sp by (intro replace_first) simp_all
  define s1 where "s1 = replace '' ,'' '','' s0"
  have s1: "s1 \<noteq> [] \<and> hd s1 = hd s0"
    unfolding s1_def using s0 sp by (intro replace_first) simp_all
  define s2 where "s2 = upper [hd s1] @ tl s1"
  have s2: "s2 \<noteq> []" "isupper (hd s2)"
    using s1 s0 s(2) t(2) by (simp_all add: s2_def upper_def isupper_upper_char)
  define sent where "sent = (if \<not> endswith_any s2 [''.'', ''?'', ''!''] then s2 @ ''.'' else s2)"
  have lin: "linearize ts = Inr sent"
    using assms(1) s1 by (simp add: linearize_def Let_def s_def s0_def s1_def s2_def sent_def)
  have "sent \<noteq> []" "hd sent = hd s2" using s2(1) by (simp_all add: sent_def)
  moreover have "last sent \<in> {CHR ''.'', CHR ''?'', CHR ''!''}"
  proof (cases "endswith_any s2 [''.'', ''?'', ''!'']")
    case True
    then have "endswith s2 ''.'' \<or> endswith s2 ''?'' \<or> endswith s2 ''!''"
      by (simp add: endswith_any_def)
    then have "last s2 \<in> {CHR ''.'', CHR ''?'', CHR ''!''}"
      using endswith_single by blast
    then show ?thesis using True by (simp add: sent_def)
  next
    case False
    then show ?thesis by (simp add: sent_def)
  qed
  ultimately show ?thesis using lin s2(2) by simp
qed

lemma word_polarity_not_NaN: "lexicon_numeric lx \<Longrightarrow> word_polarity lx t \<noteq> NaN"
proof -
  assume a: "lexicon_numeric lx"
  show ?thesis
  proof (cases "map_of lx (lower t)")
    case None
    then show ?thesis by (simp add: word_polarity_def)
  next
    case (Some e)
    then have "(lower t, e) \<in> set lx" by (rule map_of_SomeD)
    then have "polarity e \<noteq> NaN" using a by (auto simp: lexicon_numeric_def list_all_iff)
    then show ?thesis using Some by (simp add: word_polarity_def)
  qed
qed

lemma tanh_step_in_unit: "in_unit v \<Longrightarrow> p \<noteq> NaN \<Longrightarrow> in_unit (ftanh (fadd v p))"
proof -
  assume a: "in_unit v" "p \<noteq> NaN"
  then obtain x where v: "v = Finite x" by (cases v) simp_all
  have b: "- 1 \<le> tanh y \<and> tanh y \<le> 1" for y :: real
    using tanh_real_gt_neg1 [of y] tanh_real_lt_1 [of y] by simp
  show ?thesis using a(2) b unfolding v by (cases p) simp_all
qed

lemma foldl_tanh_in_unit:
  assumes "\<And>t. p t \<noteq> NaN"
  shows "in_unit v \<Longrightarrow> in_unit (foldl (\<lambda>v t. ftanh (fadd v (p t))) v ts)"
proof (induction ts arbitrary: v)
  case Nil
  then show ?case by simp
next
  case (Cons t ts)
  have "in_unit (ftanh (fadd v (p t)))" using Cons.prems assms by (rule tanh_step_in_unit)
  then show ?case using Cons.IH by simp
qed

lemma valence_loop_in_unit:
  assumes "lexicon_numeric lx"
  shows "in_unit (valence (valence_loop lx (EmotionField (Finite 0)) ts))"
proof -
  have "in_unit (foldl (\<lambda>v t. ftanh (fadd v (word_polarity lx t))) (Finite 0) ts)"
    by (rule foldl_tanh_in_unit) (simp_all add: word_polarity_not_NaN [OF assms])
  then show ?thesis by (simp add: valence_loop_foldl)
qed

lemma foldl_append_prefix: "\<exists>suf. foldl (\<lambda>out ch. out @ f ch) init chs = init @ suf"
proof (induction chs arbitrary: init)
  case Nil
  show ?case by simp
next
  case (Cons ch chs)
  obtain suf where "foldl (\<lambda>out ch. out @ f ch) (init @ f ch) chs = (init @ f ch) @ suf"
    using Cons [of "init @ f ch"] by auto
  then have "foldl (\<lambda>out ch. out @ f ch) init (ch # chs) = init @ (f ch @ suf)" by simp
  then show ?case by (rule exI)
qed

lemma contains_prefix: "contains (a @ b) a"
proof (cases "a @ b")
  case Nil
  then show ?thesis by simp
next
  case (Cons c cs)
  have "take (length a) (a @ b) = a" by simp
  then have "take (length a) (c # cs) = a" unfolding Cons .
  then show ?thesis unfolding Cons by simp
qed

lemma pretty_root: "contains (pretty (DerivationNode sy chs tok) 0) sy"
proof (cases tok)
  case None
  obtain suf where "foldl (\<lambda>out ch. out @ pretty ch (Suc 0)) (sy @ [CHR 0x0A]) chs
      = (sy @ [CHR 0x0A]) @ suf"
    using foldl_append_prefix [of "\<lambda>ch. pretty ch (Suc 0)" "sy @ [CHR 0x0A]" chs] by auto
  then have "pretty (DerivationNode sy chs tok) 0 = sy @ ([CHR 0x0A] @ suf)"
    using None by simp
  then show ?thesis using contains_prefix [of sy] by simp
next
  case (Some t)
  then have "pretty (DerivationNode sy chs tok) 0 =
      sy @ ('' '' @ arrow @ '' '' @ [CHR 0x27] @ t @ [CHR 0x27, CHR 0x0A])"
    by simp
  then show ?thesis using contains_prefix [of sy] by simp
qed

lemma expand_root:
  "expand n gr lx rs sy = Some (Inr (tree, toks, rs1)) \<Longrightarrow> symbol tree = sy"
  by (cases n) (auto split: if_splits option.splits sum.splits)

section \<open>Expansions that return\<close>

lemma seed_depth_all:
  "list_all (\<lambda>(s, k). case map_of (rules Grammar_init) s of None \<Rightarrow> False
       | Some rule \<Rightarrow> list_all (list_all (shallower k)) (rhs rule)) seed_depth"
  by (simp add: rules_Grammar_init seed_depth_def shallower_def)

lemma seed_depth_rule:
  assumes "map_of seed_depth s = Some k"
  shows "\<exists>rule. map_of (rules Grammar_init) s = Some rule \<and>
           (\<forall>alt \<in> set (rhs rule). \<forall>smb \<in> set alt. shallower k smb)"
proof -
  have "(s, k) \<in> set seed_depth" using assms by (rule map_of_SomeD)
  then show ?thesis
    using seed_depth_all unfolding list_all_iff by (fastforce split: option.splits)
qed

lemma expand_syms_returns:
  assumes "\<And>s rs. Str s \<in> set syms \<Longrightarrow> expand n gr lx rs s \<noteq> None"
  shows "expand_syms n gr lx rs syms chs toks \<noteq> None"
  using assms
proof (induction syms arbitrary: rs chs toks)
  case Nil
  show ?case by simp
next
  case (Cons smb syms)
  have ih: "expand_syms n gr lx rs1 syms chs1 toks1 \<noteq> None" for rs1 chs1 toks1
    using Cons.IH Cons.prems by simp
  have "expand_sym n gr lx rs smb \<noteq> None"
  proof (cases smb)
    case (Str s)
    then show ?thesis using Cons.prems by (simp add: expand_sym_def)
  next
    case (Tup vs)
    then show ?thesis by (cases vs) (simp_all add: expand_sym_def split: sum.splits)
  next
    case Other
    then show ?thesis by (simp add: expand_sym_def)
  qed
  then show ?case using ih by (auto simp: expand_syms_Cons split: option.splits sum.splits)
qed

lemma seed_depth_returns:
  "map_of seed_depth s = Some k \<Longrightarrow> k \<le> n \<Longrightarrow> expand n Grammar_init lx rs s \<noteq> None"
proof (induction n arbitrary: s k rs)
  case 0
  then have "(s, 0) \<in> set seed_depth" by (auto dest: map_of_SomeD)
  then show ?case by (simp add: seed_depth_def)
next
  case (Suc n)
  obtain rule where r: "map_of (rules Grammar_init) s = Some rule"
    and sh: "\<forall>alt \<in> set (rhs rule). \<forall>smb \<in> set alt. shallower k smb"
    using seed_depth_rule [OF Suc.prems(1)] by blast
  have h: "has Grammar_init s" using r by (simp add: has_iff)
  show ?case
  proof (cases "choice rs (rhs rule)")
    case (Inl e)
    then show ?thesis using h r by simp
  next
    case (Inr p)
    obtain alt rs1 where p: "p = (alt, rs1)" by (cases p)
    have "alt \<in> set (rhs rule)" using Inr p by (auto dest: choice_Inr)
    then have a: "\<forall>smb \<in> set alt. shallower k smb" using sh by blast
    have "expand n Grammar_init lx rs2 s1 \<noteq> None" if "Str s1 \<in> set alt" for s1 rs2
    proof -
      from a that have "shallower k (Str s1)" by blast
      then obtain j where "map_of seed_depth s1 = Some j" "j < k"
        by (auto simp: shallower_def split: option.splits)
      then show ?thesis using Suc.IH [of s1 j rs2] Suc.prems(2) by simp
    qed
    then have "expand_syms n Grammar_init lx rs1 alt [] [] \<noteq> None"
      by (rule expand_syms_returns)
    then show ?thesis using h r Inr p by (auto split: option.splits sum.splits)
  qed
qed

lemma seed_start_returns:
  assumes "shd rs mod 3 \<noteq> 1" "5 \<le> n"
  shows "\<exists>res. expand n Grammar_init lx rs ''S'' = Some (Inr res)"
proof -
  obtain k where n: "n = Suc k" "4 \<le> k" using assms(2) by (cases n) auto
  have s: "map_of (rules Grammar_init) ''S'' =
      Some (Rule ''S'' [[Str ''CLAUSE''], [Str ''Q''], [Str ''IMP'']])"
    by (simp add: rules_Grammar_init)
  have h: "has Grammar_init ''S''" by (simp add: has_iff s)
  have "shd rs mod 3 = 0 \<or> shd rs mod 3 = 2" using assms(1) by presburger
  then obtain a where c: "choice rs [[Str ''CLAUSE''], [Str ''Q''], [Str ''IMP'']] = Inr ([Str a], stl rs)"
    and a: "a = ''CLAUSE'' \<or> a = ''IMP''"
    by (auto simp: choice_def)
  from a obtain j where "map_of seed_depth a = Some j" "j \<le> k"
    using n(2) by (auto simp: seed_depth_def)
  then have "expand k Grammar_init lx rs1 a \<noteq> None" for rs1
    by (rule seed_depth_returns)
  then have "expand_syms k Grammar_init lx (stl rs) [Str a] [] [] \<noteq> None"
    by (intro expand_syms_returns) simp
  then have "expand n Grammar_init lx rs ''S'' \<noteq> None"
    using h s c n(1) by (auto split: option.splits sum.splits)
  then obtain r where "expand n Grammar_init lx rs ''S'' = Some r" by auto
  then show ?thesis using seed_no_error [of n lx rs "''S''"] by (cases r) auto
qed

lemma pretty_generate_root:
  assumes "expand n gr lx rs sy = Some (Inr (tree, toks, rs1))"
  shows "contains (pretty tree 0) sy"
proof -
  have "symbol tree = sy" using assms by (rule expand_root)
  then have "tree = DerivationNode sy (children tree) (token tree)" by (cases tree) simp
  then show ?thesis using pretty_root [of sy "children tree" "token tree"] by simp
qed

section \<open>The draws that a run consumes\<close>

lemma choose_for_pos_slot_words:
  "choose_for_pos lx rs (PyStr s) =
     (case slot_words lx s of Some ws \<Rightarrow> choice rs ws | None \<Rightarrow> Inr ([], rs))"
  by (simp add: choose_for_pos_def slot_words_def split: option.splits)

lemma choice_draws:
  assumes "choice rs xs = Inr (x, rs1)"
  shows "rs = [shd rs] @- rs1 \<and> (\<forall>rs'. choice ([shd rs] @- rs') xs = Inr (x, rs'))"
  using assms by (auto simp: choice_def split: if_splits)

lemma choose_for_pos_draws:
  assumes "choose_for_pos lx rs v = Inr (w, rs1)"
  shows "\<exists>ds. rs = ds @- rs1 \<and> (\<forall>rs'. choose_for_pos lx (ds @- rs') v = Inr (w, rs'))"
proof (cases v)
  case (PyStr s)
  show ?thesis
  proof (cases "slot_words lx s")
    case None
    then have "rs = [] @- rs1 \<and> (\<forall>rs'. choose_for_pos lx ([] @- rs') v = Inr (w, rs'))"
      using assms PyStr by (simp add: choose_for_pos_slot_words)
    then show ?thesis by (rule exI)
  next
    case (Some ws)
    then have c: "choice rs ws = Inr (w, rs1)"
      using assms PyStr by (simp add: choose_for_pos_slot_words)
    have "rs = [shd rs] @- rs1 \<and> (\<forall>rs'. choose_for_pos lx ([shd rs] @- rs') v = Inr (w, rs'))"
      using choice_draws [OF c] Some PyStr by (simp add: choose_for_pos_slot_words)
    then show ?thesis by (rule exI)
  qed
next
  case (PyDict d)
  then show ?thesis using assms by (simp add: choose_for_pos_def)
next
  case (PyHashable t)
  then have "rs = [] @- rs1 \<and> (\<forall>rs'. choose_for_pos lx ([] @- rs') v = Inr (w, rs'))"
    using assms by (simp add: choose_for_pos_def)
  then show ?thesis by (rule exI)
next
  case PyUnhashable
  then show ?thesis using assms by (simp add: choose_for_pos_def)
qed

lemma expand_sym_draws:
  assumes ih: "\<And>rs s tree toks rs1. expand n gr lx rs s = Some (Inr (tree, toks, rs1))
      \<Longrightarrow> \<exists>ds. rs = ds @- rs1 \<and>
            (\<forall>rs'. expand n gr lx (ds @- rs') s = Some (Inr (tree, toks, rs')))"
    and a: "expand_sym n gr lx rs smb = Some (Inr (node, toks, rs1))"
  shows "\<exists>ds. rs = ds @- rs1 \<and>
      (\<forall>rs'. expand_sym n gr lx (ds @- rs') smb = Some (Inr (node, toks, rs')))"
proof (cases smb)
  case (Str s)
  then show ?thesis using ih [of rs s node toks rs1] a by (simp add: expand_sym_def)
next
  case (Tup vs)
  show ?thesis
  proof (cases vs)
    case Nil
    then show ?thesis using a Tup by (simp add: expand_sym_def)
  next
    case (Cons v vs1)
    then obtain w where c: "choose_for_pos lx rs v = Inr (w, rs1)"
      and n: "node = DerivationNode (node_symbol v) [] (Some w)" "toks = [w]"
      using a Tup by (auto simp: expand_sym_def split: sum.splits)
    obtain ds where "rs = ds @- rs1" "\<forall>rs'. choose_for_pos lx (ds @- rs') v = Inr (w, rs')"
      using choose_for_pos_draws [OF c] by blast
    then have "rs = ds @- rs1 \<and>
      (\<forall>rs'. expand_sym n gr lx (ds @- rs') smb = Some (Inr (node, toks, rs')))"
      using Tup Cons n by (simp add: expand_sym_def)
    then show ?thesis by (rule exI)
  qed
next
  case Other
  then show ?thesis using a by (simp add: expand_sym_def)
qed

lemma expand_syms_draws:
  assumes ih: "\<And>rs s tree toks rs1. expand n gr lx rs s = Some (Inr (tree, toks, rs1))
      \<Longrightarrow> \<exists>ds. rs = ds @- rs1 \<and>
            (\<forall>rs'. expand n gr lx (ds @- rs') s = Some (Inr (tree, toks, rs')))"
  shows "expand_syms n gr lx rs syms chs toks = Some (Inr (chs1, toks1, rs1))
      \<Longrightarrow> \<exists>ds. rs = ds @- rs1 \<and>
            (\<forall>rs'. expand_syms n gr lx (ds @- rs') syms chs toks = Some (Inr (chs1, toks1, rs')))"
proof (induction syms arbitrary: rs chs toks)
  case Nil
  then have "rs = [] @- rs1 \<and>
      (\<forall>rs'. expand_syms n gr lx ([] @- rs') [] chs toks = Some (Inr (chs1, toks1, rs')))"
    by simp
  then show ?case by (rule exI)
next
  case (Cons smb syms)
  from Cons.prems obtain node t2 rs2 where
    a: "expand_sym n gr lx rs smb = Some (Inr (node, t2, rs2))" and
    b: "expand_syms n gr lx rs2 syms (chs @ [node]) (toks @ t2) = Some (Inr (chs1, toks1, rs1))"
    by (auto simp: expand_syms_Cons split: option.splits sum.splits)
  obtain ds1 where d1: "rs = ds1 @- rs2"
    "\<forall>rs'. expand_sym n gr lx (ds1 @- rs') smb = Some (Inr (node, t2, rs'))"
    using expand_sym_draws [OF ih a] by blast
  obtain ds2 where d2: "rs2 = ds2 @- rs1"
    "\<forall>rs'. expand_syms n gr lx (ds2 @- rs') syms (chs @ [node]) (toks @ t2)
        = Some (Inr (chs1, toks1, rs'))"
    using Cons.IH [OF b] by blast
  have "rs = (ds1 @ ds2) @- rs1 \<and>
      (\<forall>rs'. expand_syms n gr lx ((ds1 @ ds2) @- rs') (smb # syms) chs toks
         = Some (Inr (chs1, toks1, rs')))"
    using d1 d2 by (simp add: expand_syms_Cons)
  then show ?case by (rule exI)
qed

lemma expand_draws:
  "expand n gr lx rs sy = Some (Inr (tree, toks, rs1))
     \<Longrightarrow> \<exists>ds. rs = ds @- rs1 \<and>
           (\<forall>rs'. expand n gr lx (ds @- rs') sy = Some (Inr (tree, toks, rs')))"
proof (induction n arbitrary: rs sy tree toks rs1)
  case 0
  then show ?case by simp
next
  case (Suc n)
  show ?case
  proof (cases "has gr sy")
    case False
    then have "rs = [] @- rs1 \<and>
        (\<forall>rs'. expand (Suc n) gr lx ([] @- rs') sy = Some (Inr (tree, toks, rs')))"
      using Suc.prems by auto
    then show ?thesis by (rule exI)
  next
    case True
    then obtain rule where r: "map_of (rules gr) sy = Some rule" by (auto simp: has_iff)
    from Suc.prems True r obtain alt rs2 chs where
      c: "choice rs (rhs rule) = Inr (alt, rs2)" and
      e: "expand_syms n gr lx rs2 alt [] [] = Some (Inr (chs, toks, rs1))" and
      t: "tree = DerivationNode sy chs None"
      by (auto split: sum.splits option.splits)
    have c1: "rs = [shd rs] @- rs2" "\<forall>rs'. choice ([shd rs] @- rs') (rhs rule) = Inr (alt, rs')"
      using choice_draws [OF c] by simp_all
    obtain ds where d: "rs2 = ds @- rs1"
      "\<forall>rs'. expand_syms n gr lx (ds @- rs') alt [] [] = Some (Inr (chs, toks, rs'))"
      using expand_syms_draws [OF Suc.IH e] by blast
    have "rs = ([shd rs] @ ds) @- rs1" using c1(1) d(1) by simp
    moreover have "expand (Suc n) gr lx (([shd rs] @ ds) @- rs') sy = Some (Inr (tree, toks, rs'))"
      for rs'
    proof -
      have "choice (([shd rs] @ ds) @- rs') (rhs rule) = Inr (alt, ds @- rs')"
        using c1(2) by simp
      then show ?thesis using True r d(2) t by simp
    qed
    ultimately have "rs = ([shd rs] @ ds) @- rs1 \<and>
        (\<forall>rs'. expand (Suc n) gr lx (([shd rs] @ ds) @- rs') sy = Some (Inr (tree, toks, rs')))"
      by blast
    then show ?thesis by (rule exI)
  qed
qed

lemma generate_draws:
  assumes "generate n gr lx rs = Some (Inr (sent, tree, field, rs1))"
  shows "\<exists>ds. rs = ds @- rs1 \<and>
      (\<forall>rs'. generate n gr lx (ds @- rs') = Some (Inr (sent, tree, field, rs')))"
proof -
  obtain tr toks rs2 where e: "expand n gr lx rs (start gr) = Some (Inr (tr, toks, rs2))"
    using assms unfolding generate_def by (auto split: option.splits sum.splits)
  from assms e have eq: "tr = tree" "rs2 = rs1"
    "field = valence_loop lx (EmotionField (Finite 0)) (postprocess toks)"
    "linearize (postprocess toks) = Inr sent"
    unfolding generate_def by (auto simp: Let_def split: sum.splits)
  obtain ds where d: "rs = ds @- rs2"
    "\<forall>rs'. expand n gr lx (ds @- rs') (start gr) = Some (Inr (tr, toks, rs'))"
    using expand_draws [OF e] by blast
  have "rs = ds @- rs1 \<and>
      (\<forall>rs'. generate n gr lx (ds @- rs') = Some (Inr (sent, tree, field, rs')))"
    using d eq by (simp add: generate_def)
  then show ?thesis by (rule exI)
qed

lemma seed_generate_returns:
  assumes "shd rs mod 3 \<noteq> 1" "5 \<le> n"
  shows "\<exists>r. generate n Grammar_init lx rs = Some r"
proof -
  obtain res where e: "expand n Grammar_init lx rs ''S'' = Some (Inr res)"
    using seed_start_returns [OF assms] by blast
  obtain tree toks rs1 where "res = (tree, toks, rs1)" by (cases res)
  then show ?thesis using e
    by (cases "linearize (postprocess toks)") (simp_all add: generate_def start_Grammar_init)
qed

section \<open>Uniform choice\<close>

lemma uniform_draw_nth:
  assumes "xs \<noteq> []"
  shows "uniform_draw (\<lambda>d. xs ! (d mod length xs)) xs"
proof -
  have "card {d. d < length xs \<and> xs ! (d mod length xs) = w} = count_list xs w" for w
  proof -
    have "{d. d < length xs \<and> xs ! (d mod length xs) = w} = {d. d < length xs \<and> xs ! d = w}"
      by auto
    then have "card {d. d < length xs \<and> xs ! (d mod length xs) = w}
        = length (filter (\<lambda>x. x = w) xs)"
      by (simp add: length_filter_conv_card)
    also have "\<dots> = count_list xs w"
      by (induction xs) simp_all
    finally show ?thesis .
  qed
  then show ?thesis using assms by (simp add: uniform_draw_def)
qed

lemma chosen_choice:
  assumes "slot_words lx s = Some ws" "ws \<noteq> []"
  shows "chosen lx s rs = (\<lambda>d. ws ! (d mod length ws))"
  using assms by (auto simp: chosen_def choose_for_pos_slot_words choice_def)

lemma chosen_uniform:
  assumes "slot_words lx s = Some ws" "ws \<noteq> []"
  shows "uniform_draw (chosen lx s rs) ws"
  unfolding chosen_choice [OF assms] using assms(2) by (rule uniform_draw_nth)

section \<open>Morphology: the two suffix rules\<close>



section \<open>Post-processing\<close>

text \<open>
  C6. In the post-processing pass, at every position \<open>i\<close> with a successor: a token that is
  \<open>a\<close> case-insensitively and whose successor begins with a vowel letter (checked
  case-insensitively) becomes \<open>an\<close>; such a token whose successor does not begin with a
  vowel letter, so in particular one whose successor begins with a consonant, is left
  unchanged.
\<close>

theorem postprocess_article:
  "(Suc i < length ts \<and> lower (ts ! i) = ''a'' \<and> vowel_initial (ts ! Suc i)
      \<longrightarrow> postprocess ts ! i = ''an'') \<and>
   (Suc i < length ts \<and> lower (ts ! i) = ''a'' \<and> \<not> vowel_initial (ts ! Suc i)
      \<longrightarrow> postprocess ts ! i = ts ! i)"
  by (simp add: postprocess_nth article_at_eq)

theorem postprocess_article_witness:
  "Suc 0 < length [''A'', ''Apple'', ''a'', ''cat''] \<and> lower ''A'' = ''a'' \<and> vowel_initial ''Apple'' \<and>
   postprocess [''A'', ''Apple'', ''a'', ''cat''] ! 0 = ''an'' \<and>
   Suc 2 < length [''A'', ''Apple'', ''a'', ''cat''] \<and> lower ''a'' = ''a'' \<and>
   \<not> vowel_initial ''cat'' \<and>
   postprocess [''A'', ''Apple'', ''a'', ''cat''] ! 2 = ''a''"
  using postprocess_article [of 0 "[''A'', ''Apple'', ''a'', ''cat'']"]
    postprocess_article [of 2 "[''A'', ''Apple'', ''a'', ''cat'']"]
  by (simp add: vowel_initial_def case_eval)

text \<open>
  C10. Post-processing keeps the length of the token sequence; every position whose token
  is not a case-insensitive \<open>a\<close> directly followed by a vowel-initial token is returned
  unchanged; the token in the final position is never rewritten.
\<close>

theorem postprocess_frame:
  "length (postprocess ts) = length ts \<and>
   (\<forall>i < length ts.
      \<not> (lower (ts ! i) = ''a'' \<and> Suc i < length ts \<and> vowel_initial (ts ! Suc i))
      \<longrightarrow> postprocess ts ! i = ts ! i) \<and>
   (ts \<noteq> [] \<longrightarrow> last (postprocess ts) = last ts)"
proof (intro conjI allI impI)
  show len: "length (postprocess ts) = length ts" by (rule length_postprocess)
  show "postprocess ts ! i = ts ! i"
    if "i < length ts"
      "\<not> (lower (ts ! i) = ''a'' \<and> Suc i < length ts \<and> vowel_initial (ts ! Suc i))" for i
    using that by (auto simp add: postprocess_nth article_at_eq)
  show "last (postprocess ts) = last ts" if "ts \<noteq> []"
  proof -
    have "postprocess ts \<noteq> []" using that len by (metis length_0_conv)
    then have "last (postprocess ts) = postprocess ts ! (length ts - 1)"
      by (simp add: last_conv_nth len)
    also have "\<dots> = article_at ts (length ts - 1)"
      using that by (simp add: postprocess_nth)
    also have "\<dots> = ts ! (length ts - 1)"
      using that by (simp add: article_at_eq)
    finally show ?thesis using that by (simp add: last_conv_nth)
  qed
qed

theorem postprocess_frame_witness:
  "length (postprocess [''a'', ''owl'', ''sees'', ''a'']) = length [''a'', ''owl'', ''sees'', ''a''] \<and>
   postprocess [''a'', ''owl'', ''sees'', ''a''] = [''an'', ''owl'', ''sees'', ''a''] \<and>
   last (postprocess [''a'', ''owl'', ''sees'', ''a'']) = ''a''"
  using postprocess_frame [of "[''a'', ''owl'', ''sees'', ''a'']"]
  by (simp add: postprocess_eval)

section \<open>Lexicon\<close>

text \<open>
  C9. \<open>add\<close> stores the entry under the lowercased word with the uppercased part of speech,
  overwriting an entry of that key in place and appending a new key otherwise. On the
  lexicon of the constructor, \<open>scientist\<close> is not among the NOUN words, and after
  \<open>add("scientist", "NOUN", 0.3)\<close> it occurs among them exactly once.
\<close>

theorem lexicon_add:
  "get (add lx word p pol) w =
     (if lower w = lower word then Some (LexEntry (upper p) pol) else get lx w) \<and>
   map fst (add lx word p pol) =
     (if lower word \<in> set (map fst lx) then map fst lx else map fst lx @ [lower word]) \<and>
   ''scientist'' \<notin> set (words_for_pos Lexicon_init ''NOUN'') \<and>
   count_list (words_for_pos (add Lexicon_init ''scientist'' ''NOUN'' (Finite (3/10))) ''NOUN'')
     ''scientist'' = 1"
proof (intro conjI)
  show "get (add lx word p pol) w =
     (if lower w = lower word then Some (LexEntry (upper p) pol) else get lx w)"
    by (simp add: get_def add_def update_conv')
  show "map fst (add lx word p pol) =
     (if lower word \<in> set (map fst lx) then map fst lx else map fst lx @ [lower word])"
    unfolding add_def by (rule update_keys)
  show "''scientist'' \<notin> set (words_for_pos Lexicon_init ''NOUN'')"
    by (simp add: lexicon_eval)
  show "count_list (words_for_pos (add Lexicon_init ''scientist'' ''NOUN'' (Finite (3/10))) ''NOUN'')
     ''scientist'' = 1"
    by (simp add: lexicon_eval)
qed

theorem lexicon_add_witness:
  "get (add Lexicon_init ''Scientist'' ''noun'' (Finite (3/10))) ''SCIENTIST'' = Some (LexEntry ''NOUN'' (Finite (3/10))) \<and>
   get (add Lexicon_init ''Scientist'' ''noun'' (Finite (3/10))) ''cat'' = Some (LexEntry ''NOUN'' (Finite (2/10))) \<and>
   words_for_pos (add Lexicon_init ''Scientist'' ''noun'' (Finite (3/10))) ''NOUN'' =
     [''cat'', ''dog'', ''child'', ''war'', ''love'', ''scientist''] \<and>
   words_for_pos (add Lexicon_init ''CAT'' ''verb'' (Finite 0)) ''NOUN'' = [''dog'', ''child'', ''war'', ''love'']"
  using lexicon_add [of Lexicon_init "''Scientist''" "''noun''" "Finite (3/10)" "''SCIENTIST''"]
    lexicon_add [of Lexicon_init "''Scientist''" "''noun''" "Finite (3/10)" "''cat''"]
  by (simp add: lexicon_eval)

section \<open>Slot resolution\<close>

text \<open>
  C5, as the claim states it: a slot other than \<open><P>\<close>, \<open><AUX>\<close>, \<open><WH>\<close>, \<open><NOUN>\<close>,
  \<open><VERB>\<close>, \<open><ADJ>\<close> yields the empty string. The slot \<open><DET>\<close> is none of these six
  and yields \<open>the\<close> at draw 0.
\<close>

theorem choose_for_pos_det_counterexample:
  "''<DET>'' \<notin> set [''<P>'', ''<AUX>'', ''<WH>'', ''<NOUN>'', ''<VERB>'', ''<ADJ>''] \<and>
   choose_for_pos Lexicon_init (sconst 0) (PyStr ''<DET>'') = Inr (''the'', sconst 0) \<and>
   ''the'' \<noteq> ''''"
  by (simp add: choose_eval)

text \<open>
  C5, amended. \<open><P>\<close>, \<open><AUX>\<close>, \<open><WH>\<close> draw uniformly from their fixed lists and \<open><DET>\<close>
  draws uniformly from \<open>the\<close>, \<open>a\<close>, \<open>an\<close>; \<open><NOUN>\<close>, \<open><VERB>\<close>, \<open><ADJ>\<close> draw uniformly from
  the lexicon's words of that tag, and from the single default \<open>cat\<close>, \<open>see\<close>, \<open>happy\<close>
  when there is none, rather than failing. Each of these takes the word at the place that
  the next draw gives and consumes that one draw. Every other slot yields the empty string
  and consumes no draw.
\<close>

theorem choose_for_pos_slots:
  "choose_for_pos lx rs (PyStr ''<P>'') =
     Inr ([''with'', ''without'', ''near'', ''against''] ! (shd rs mod 4), stl rs) \<and>
   choose_for_pos lx rs (PyStr ''<AUX>'') =
     Inr ([''does'', ''did'', ''will''] ! (shd rs mod 3), stl rs) \<and>
   choose_for_pos lx rs (PyStr ''<WH>'') =
     Inr ([''why'', ''how'', ''what'', ''who''] ! (shd rs mod 4), stl rs) \<and>
   choose_for_pos lx rs (PyStr ''<DET>'') = Inr ([''the'', ''a'', ''an''] ! (shd rs mod 3), stl rs) \<and>
   choose_for_pos lx rs (PyStr ''<NOUN>'') =
     (if words_for_pos lx ''NOUN'' = [] then Inr (''cat'', stl rs)
      else Inr (words_for_pos lx ''NOUN'' ! (shd rs mod length (words_for_pos lx ''NOUN'')), stl rs)) \<and>
   choose_for_pos lx rs (PyStr ''<VERB>'') =
     (if words_for_pos lx ''VERB'' = [] then Inr (''see'', stl rs)
      else Inr (words_for_pos lx ''VERB'' ! (shd rs mod length (words_for_pos lx ''VERB'')), stl rs)) \<and>
   choose_for_pos lx rs (PyStr ''<ADJ>'') =
     (if words_for_pos lx ''ADJ'' = [] then Inr (''happy'', stl rs)
      else Inr (words_for_pos lx ''ADJ'' ! (shd rs mod length (words_for_pos lx ''ADJ'')), stl rs)) \<and>
   uniform_draw (chosen lx ''<P>'' rs) [''with'', ''without'', ''near'', ''against''] \<and>
   uniform_draw (chosen lx ''<AUX>'' rs) [''does'', ''did'', ''will''] \<and>
   uniform_draw (chosen lx ''<WH>'' rs) [''why'', ''how'', ''what'', ''who''] \<and>
   uniform_draw (chosen lx ''<DET>'' rs) [''the'', ''a'', ''an''] \<and>
   uniform_draw (chosen lx ''<NOUN>'' rs)
     (if words_for_pos lx ''NOUN'' = [] then [''cat''] else words_for_pos lx ''NOUN'') \<and>
   uniform_draw (chosen lx ''<VERB>'' rs)
     (if words_for_pos lx ''VERB'' = [] then [''see''] else words_for_pos lx ''VERB'') \<and>
   uniform_draw (chosen lx ''<ADJ>'' rs)
     (if words_for_pos lx ''ADJ'' = [] then [''happy''] else words_for_pos lx ''ADJ'') \<and>
   (slot \<notin> set [''<P>'', ''<AUX>'', ''<WH>'', ''<DET>'', ''<NOUN>'', ''<VERB>'', ''<ADJ>'']
      \<longrightarrow> choose_for_pos lx rs (PyStr slot) = Inr ('''', rs))"
proof -
  have u: "uniform_draw (chosen lx s rs) ws" if "slot_words lx s = Some ws" "ws \<noteq> []" for s ws
    using that by (rule chosen_uniform)
  have "uniform_draw (chosen lx ''<P>'' rs) [''with'', ''without'', ''near'', ''against'']"
    by (rule u) (simp_all add: slot_words_def functional_words_def)
  moreover have "uniform_draw (chosen lx ''<AUX>'' rs) [''does'', ''did'', ''will'']"
    by (rule u) (simp_all add: slot_words_def functional_words_def)
  moreover have "uniform_draw (chosen lx ''<WH>'' rs) [''why'', ''how'', ''what'', ''who'']"
    by (rule u) (simp_all add: slot_words_def functional_words_def)
  moreover have "uniform_draw (chosen lx ''<DET>'' rs) [''the'', ''a'', ''an'']"
    by (rule u) (simp_all add: slot_words_def functional_words_def)
  moreover have "uniform_draw (chosen lx ''<NOUN>'' rs)
     (if words_for_pos lx ''NOUN'' = [] then [''cat''] else words_for_pos lx ''NOUN'')"
    by (rule u) (simp_all add: slot_words_def functional_words_def or_else_def)
  moreover have "uniform_draw (chosen lx ''<VERB>'' rs)
     (if words_for_pos lx ''VERB'' = [] then [''see''] else words_for_pos lx ''VERB'')"
    by (rule u) (simp_all add: slot_words_def functional_words_def or_else_def)
  moreover have "uniform_draw (chosen lx ''<ADJ>'' rs)
     (if words_for_pos lx ''ADJ'' = [] then [''happy''] else words_for_pos lx ''ADJ'')"
    by (rule u) (simp_all add: slot_words_def functional_words_def or_else_def)
  ultimately show ?thesis by (simp add: choose_eval)
qed

theorem choose_for_pos_slots_witness:
  "choose_for_pos Lexicon_init (6 ## sconst 0) (PyStr ''<P>'') = Inr (''near'', sconst 0) \<and>
   choose_for_pos Lexicon_init (6 ## sconst 0) (PyStr ''<NOUN>'') = Inr (''dog'', sconst 0) \<and>
   choose_for_pos [] (6 ## sconst 0) (PyStr ''<VERB>'') = Inr (''see'', sconst 0) \<and>
   card {d. d < length [''does'', ''did'', ''will''] \<and>
            chosen Lexicon_init ''<AUX>'' (sconst 0) d = ''did''} = 1 \<and>
   card {d. d < length [''cat'', ''dog'', ''child'', ''war'', ''love''] \<and>
            chosen Lexicon_init ''<NOUN>'' (sconst 0) d = ''war''} = 1 \<and>
   ''<PRON>'' \<notin> set [''<P>'', ''<AUX>'', ''<WH>'', ''<DET>'', ''<NOUN>'', ''<VERB>'', ''<ADJ>''] \<and>
   choose_for_pos Lexicon_init (6 ## sconst 0) (PyStr ''<PRON>'') = Inr ('''', 6 ## sconst 0)"
proof -
  note t = choose_for_pos_slots [of Lexicon_init "6 ## sconst 0" "''<PRON>''"]
  note e = choose_for_pos_slots [of "[]" "6 ## sconst 0" "''<PRON>''"]
  note u = choose_for_pos_slots [of Lexicon_init "sconst 0" "''<PRON>''"]
  have n: "words_for_pos Lexicon_init ''NOUN'' = [''cat'', ''dog'', ''child'', ''war'', ''love'']"
    "words_for_pos [] ''VERB'' = []"
    by (simp_all add: words_for_pos_def Lexicon_init_def case_eval)
  have 1: "choose_for_pos Lexicon_init (6 ## sconst 0) (PyStr ''<P>'') = Inr (''near'', sconst 0)"
    using t by simp
  have 2: "choose_for_pos Lexicon_init (6 ## sconst 0) (PyStr ''<NOUN>'') = Inr (''dog'', sconst 0)"
    using t n(1) by simp
  have 3: "choose_for_pos [] (6 ## sconst 0) (PyStr ''<VERB>'') = Inr (''see'', sconst 0)"
    using e n(2) by simp
  have "uniform_draw (chosen Lexicon_init ''<AUX>'' (sconst 0)) [''does'', ''did'', ''will'']"
    using u by blast
  then have 4: "card {d. d < length [''does'', ''did'', ''will''] \<and>
            chosen Lexicon_init ''<AUX>'' (sconst 0) d = ''did''} = count_list [''does'', ''did'', ''will''] ''did''"
    unfolding uniform_draw_def by blast
  have "uniform_draw (chosen Lexicon_init ''<NOUN>'' (sconst 0))
      [''cat'', ''dog'', ''child'', ''war'', ''love'']"
    using u n(1) by simp
  then have 5: "card {d. d < length [''cat'', ''dog'', ''child'', ''war'', ''love''] \<and>
            chosen Lexicon_init ''<NOUN>'' (sconst 0) d = ''war''}
        = count_list [''cat'', ''dog'', ''child'', ''war'', ''love''] ''war''"
    unfolding uniform_draw_def by blast
  have 6: "choose_for_pos Lexicon_init (6 ## sconst 0) (PyStr ''<PRON>'') = Inr ('''', 6 ## sconst 0)"
    using t by simp
  show ?thesis using 1 2 3 4 5 6 by simp
qed

section \<open>Valence\<close>

text \<open>
  C4. The valence that \<open>generate\<close> returns is the left fold of \<open>tanh (v + p)\<close> over the
  post-processed tokens in order, from 0.0; for three tokens it is
  \<open>tanh (tanh (tanh (0 + p1) + p2) + p3)\<close>; a token without an entry contributes 0.0.
\<close>

theorem valence_left_fold:
  "(generate n gr lx rs = Some (Inr (sent, tree, field, rs1)) \<longrightarrow>
      (\<exists>tokens. expand n gr lx rs (start gr) = Some (Inr (tree, tokens, rs1)) \<and>
         valence field =
           foldl (\<lambda>v t. ftanh (fadd v (word_polarity lx t))) (Finite 0) (postprocess tokens))) \<and>
   valence (valence_loop lx (EmotionField (Finite 0)) [w1, w2, w3]) =
     ftanh (fadd (ftanh (fadd (ftanh (fadd (Finite 0) (word_polarity lx w1)))
       (word_polarity lx w2))) (word_polarity lx w3)) \<and>
   (word_polarity lx w1 = Finite p1 \<and> word_polarity lx w2 = Finite p2 \<and>
    word_polarity lx w3 = Finite p3 \<longrightarrow>
      valence (valence_loop lx (EmotionField (Finite 0)) [w1, w2, w3]) =
        Finite (tanh (tanh (tanh (0 + p1) + p2) + p3))) \<and>
   (map_of lx (lower w) = None \<longrightarrow> word_polarity lx w = Finite 0)"
proof (intro conjI impI)
  assume g: "generate n gr lx rs = Some (Inr (sent, tree, field, rs1))"
  then obtain tr tokens rs2 where e: "expand n gr lx rs (start gr) = Some (Inr (tr, tokens, rs2))"
    unfolding generate_def by (auto split: option.splits sum.splits)
  from g e have "tr = tree" "rs2 = rs1"
    and "field = valence_loop lx (EmotionField (Finite 0)) (postprocess tokens)"
    unfolding generate_def by (auto simp: Let_def split: sum.splits)
  then show "\<exists>tokens. expand n gr lx rs (start gr) = Some (Inr (tree, tokens, rs1)) \<and>
         valence field =
           foldl (\<lambda>v t. ftanh (fadd v (word_polarity lx t))) (Finite 0) (postprocess tokens)"
    using e by (simp add: valence_loop_foldl)
next
  show "valence (valence_loop lx (EmotionField (Finite 0)) [w1, w2, w3]) =
     ftanh (fadd (ftanh (fadd (ftanh (fadd (Finite 0) (word_polarity lx w1)))
       (word_polarity lx w2))) (word_polarity lx w3))"
    by (simp add: valence_loop_foldl)
next
  assume "word_polarity lx w1 = Finite p1 \<and> word_polarity lx w2 = Finite p2 \<and>
    word_polarity lx w3 = Finite p3"
  then show "valence (valence_loop lx (EmotionField (Finite 0)) [w1, w2, w3]) =
        Finite (tanh (tanh (tanh (0 + p1) + p2) + p3))"
    by (simp add: valence_loop_foldl)
next
  assume "map_of lx (lower w) = None"
  then show "word_polarity lx w = Finite 0" by (simp add: word_polarity_def)
qed

theorem valence_left_fold_witness:
  "generate 5 Grammar_init Lexicon_init ([2, 0, 0, 1, 2, 0, 4] @- sconst 0) =
     Some (Inr (''Like love.'',
       DerivationNode ''S''
        [DerivationNode ''IMP''
          [DerivationNode ''V'' [DerivationNode ''<VERB>'' [] (Some ''like'')] None,
           DerivationNode ''NP''
            [DerivationNode ''N'' [DerivationNode ''<NOUN>'' [] (Some ''love'')] None] None]
          None]
        None,
       EmotionField (Finite (tanh (tanh (3 / 5) + 9 / 10))), sconst 0)) \<and>
   Finite (tanh (tanh (3 / 5) + 9 / 10)) =
     foldl (\<lambda>v t. ftanh (fadd v (word_polarity Lexicon_init t))) (Finite 0) [''like'', ''love''] \<and>
   valence (valence_loop Lexicon_init (EmotionField (Finite 0)) [''like'', ''love'', ''cat'']) =
     Finite (tanh (tanh (tanh (0 + 3 / 5) + 9 / 10) + 1 / 5)) \<and>
   word_polarity Lexicon_init ''Zebra'' = Finite 0"
proof -
  let ?rs = "[2, 0, 0, 1, 2, 0, 4] @- sconst (0::nat)"
  let ?tree = "DerivationNode ''S''
        [DerivationNode ''IMP''
          [DerivationNode ''V'' [DerivationNode ''<VERB>'' [] (Some ''like'')] None,
           DerivationNode ''NP''
            [DerivationNode ''N'' [DerivationNode ''<NOUN>'' [] (Some ''love'')] None] None]
          None]
        None"
  let ?field = "EmotionField (Finite (tanh (tanh (3 / 5) + 9 / 10)))"
  have g: "generate 5 Grammar_init Lexicon_init ?rs = Some (Inr (''Like love.'', ?tree, ?field, sconst 0))"
    by (simp add: generate_eval)
  have e: "expand 5 Grammar_init Lexicon_init ?rs (start Grammar_init) =
      Some (Inr (?tree, [''like'', ''love''], sconst 0))"
    by (simp add: generate_eval)
  have p: "postprocess [''like'', ''love''] = [''like'', ''love'']"
    by (simp add: postprocess_eval)
  have m: "map_of Lexicon_init (lower ''Zebra'') = None"
    by (simp add: lexicon_eval)
  have w: "word_polarity Lexicon_init ''like'' = Finite (3 / 5) \<and>
      word_polarity Lexicon_init ''love'' = Finite (9 / 10) \<and>
      word_polarity Lexicon_init ''cat'' = Finite (1 / 5)"
    by (simp add: word_polarity_def lexicon_eval)
  note t = valence_left_fold [where n = 5 and gr = Grammar_init and lx = Lexicon_init
      and rs = ?rs and sent = "''Like love.''" and tree = ?tree and field = ?field
      and ?rs1.0 = "sconst 0" and ?w1.0 = "''like''" and ?w2.0 = "''love''" and ?w3.0 = "''cat''"
      and ?p1.0 = "3 / 5" and ?p2.0 = "9 / 10" and ?p3.0 = "1 / 5" and w = "''Zebra''"]
  from t g e p have 1: "Finite (tanh (tanh (3 / 5) + 9 / 10)) =
     foldl (\<lambda>v t. ftanh (fadd v (word_polarity Lexicon_init t))) (Finite 0) [''like'', ''love'']"
    by auto
  from t w have 2: "valence (valence_loop Lexicon_init (EmotionField (Finite 0))
        [''like'', ''love'', ''cat'']) = Finite (tanh (tanh (tanh (0 + 3 / 5) + 9 / 10) + 1 / 5))"
    by blast
  from t m have 3: "word_polarity Lexicon_init ''Zebra'' = Finite 0" by blast
  show ?thesis using g 1 2 3 by blast
qed

section \<open>Unknown symbol types\<close>

text \<open>
  C7, as the claim states it: a symbol that is neither a string nor a pair of a slot name
  and an attribute map aborts the expansion. The tuple \<open>(42, {})\<close> is neither, and the
  expansion takes it for a slot, gives it the empty token and returns a sentence.
\<close>

theorem odd_tuple_absorbed_counterexample:
  "\<not> wf_symbol (Tup [PyHashable ''42'', PyDict []]) \<and>
   generate 2 odd_tuple_grammar Lexicon_init (sconst 0) =
     Some (Inr (''Hello .'',
       DerivationNode ''S''
        [DerivationNode ''hello'' [] (Some ''hello''), DerivationNode ''42'' [] (Some '''')] None,
       EmotionField (Finite 0), sconst 0))"
  by (simp add: odd_tuple_grammar_def generate_eval)

text \<open>
  C7, amended. When the loop over an alternative reaches a symbol whose type is neither
  string nor tuple, the expansion stops with \<open>ValueError "Unknown symbol type"\<close>, whatever
  came before it in the alternative, and an error of an expansion is the error of the
  expansion that called it and of \<open>generate\<close>. Every tuple is taken for a slot marker: one
  whose first component is a value other than a string gives the empty token without an
  error, the empty tuple raises \<open>IndexError\<close>, and a first component that cannot be hashed
  raises \<open>TypeError\<close>. With a well-formed rule set, neither the expansion nor \<open>generate\<close>
  ends in a \<open>ValueError\<close>.
\<close>

theorem unknown_symbol_fatal:
  "(expand_syms n gr lx rs pre chs toks = Some (Inr (chs1, toks1, rs1)) \<longrightarrow>
      expand_syms n gr lx rs (pre @ Other # post) chs toks =
        Some (Inl (ValueError ''Unknown symbol type''))) \<and>
   (expand_syms n gr lx rs pre chs toks = Some (Inr (chs1, toks1, rs1)) \<and>
    expand n gr lx rs1 s = Some (Inl e) \<longrightarrow>
      expand_syms n gr lx rs (pre @ Str s # post) chs toks = Some (Inl e)) \<and>
   (map_of (rules gr) sy = Some rule \<and> choice rs (rhs rule) = Inr (alt, rs2) \<and>
    expand_syms n gr lx rs2 alt [] [] = Some (Inl e)
      \<longrightarrow> expand (Suc n) gr lx rs sy = Some (Inl e)) \<and>
   (expand n gr lx rs (start gr) = Some (Inl e) \<longrightarrow> generate n gr lx rs = Some (Inl e)) \<and>
   (expand_syms n gr lx rs pre chs toks = Some (Inr (chs1, toks1, rs1)) \<longrightarrow>
      expand_syms n gr lx rs (pre @ Tup (PyHashable t # vs) # post) chs toks =
        expand_syms n gr lx rs1 post (chs1 @ [DerivationNode t [] (Some '''')]) (toks1 @ ['''']) \<and>
      expand_syms n gr lx rs (pre @ Tup [] # post) chs toks = Some (Inl IndexError) \<and>
      expand_syms n gr lx rs (pre @ Tup (PyDict d # vs) # post) chs toks = Some (Inl TypeError) \<and>
      expand_syms n gr lx rs (pre @ Tup (PyUnhashable # vs) # post) chs toks =
        Some (Inl TypeError)) \<and>
   (wf_grammar gr \<longrightarrow> expand n gr lx rs sy \<noteq> Some (Inl (ValueError m)) \<and>
      generate n gr lx rs \<noteq> Some (Inl (ValueError m)))"
proof (intro conjI impI)
  show "expand_syms n gr lx rs (pre @ Other # post) chs toks =
        Some (Inl (ValueError ''Unknown symbol type''))"
    if "expand_syms n gr lx rs pre chs toks = Some (Inr (chs1, toks1, rs1))"
    by (simp add: expand_syms_reach [OF that] expand_sym_def)
  show "expand_syms n gr lx rs (pre @ Str s # post) chs toks = Some (Inl e)"
    if "expand_syms n gr lx rs pre chs toks = Some (Inr (chs1, toks1, rs1)) \<and>
      expand n gr lx rs1 s = Some (Inl e)"
  proof -
    from that have a: "expand_syms n gr lx rs pre chs toks = Some (Inr (chs1, toks1, rs1))"
      and b: "expand n gr lx rs1 s = Some (Inl e)" by simp_all
    show ?thesis by (simp add: expand_syms_reach [OF a] expand_sym_def b)
  qed
  show "expand (Suc n) gr lx rs sy = Some (Inl e)"
    if "map_of (rules gr) sy = Some rule \<and> choice rs (rhs rule) = Inr (alt, rs2) \<and>
      expand_syms n gr lx rs2 alt [] [] = Some (Inl e)"
    using that by (simp add: has_iff)
  show "generate n gr lx rs = Some (Inl e)" if "expand n gr lx rs (start gr) = Some (Inl e)"
    using that by (simp add: generate_def)
  show "expand_syms n gr lx rs (pre @ Tup (PyHashable t # vs) # post) chs toks =
        expand_syms n gr lx rs1 post (chs1 @ [DerivationNode t [] (Some '''')]) (toks1 @ [''''])"
    if "expand_syms n gr lx rs pre chs toks = Some (Inr (chs1, toks1, rs1))"
    by (simp add: expand_syms_reach [OF that] expand_sym_def choose_for_pos_def)
  show "expand_syms n gr lx rs (pre @ Tup [] # post) chs toks = Some (Inl IndexError)"
    if "expand_syms n gr lx rs pre chs toks = Some (Inr (chs1, toks1, rs1))"
    by (simp add: expand_syms_reach [OF that] expand_sym_def)
  show "expand_syms n gr lx rs (pre @ Tup (PyDict d # vs) # post) chs toks = Some (Inl TypeError)"
    if "expand_syms n gr lx rs pre chs toks = Some (Inr (chs1, toks1, rs1))"
    by (simp add: expand_syms_reach [OF that] expand_sym_def choose_for_pos_def)
  show "expand_syms n gr lx rs (pre @ Tup (PyUnhashable # vs) # post) chs toks =
        Some (Inl TypeError)"
    if "expand_syms n gr lx rs pre chs toks = Some (Inr (chs1, toks1, rs1))"
    by (simp add: expand_syms_reach [OF that] expand_sym_def choose_for_pos_def)
  show "expand n gr lx rs sy \<noteq> Some (Inl (ValueError m))" if wf: "wf_grammar gr"
  proof
    assume "expand n gr lx rs sy = Some (Inl (ValueError m))"
    then have "ValueError m = IndexError" using expand_error [OF wf] by blast
    then show False by simp
  qed
  show "generate n gr lx rs \<noteq> Some (Inl (ValueError m))" if wf: "wf_grammar gr"
  proof
    assume g: "generate n gr lx rs = Some (Inl (ValueError m))"
    show False
    proof (cases "expand n gr lx rs (start gr)")
      case None
      then show ?thesis using g by (simp add: generate_def)
    next
      case (Some a)
      show ?thesis
      proof (cases a)
        case (Inl e1)
        then have "e1 = IndexError" using expand_error [OF wf] Some by blast
        then show ?thesis using g Some Inl by (simp add: generate_def)
      next
        case (Inr p)
        obtain tree tokens rs1 where "p = (tree, tokens, rs1)" by (cases p)
        then show ?thesis using g Some Inr
          by (auto simp: generate_def Let_def linearize_def split: sum.splits if_splits)
      qed
    qed
  qed
qed

theorem unknown_symbol_fatal_witness:
  "expand_syms 1 malformed_grammar Lexicon_init (sconst 0) [Str ''hello''] [] [] =
     Some (Inr ([DerivationNode ''hello'' [] (Some ''hello'')], [''hello''], sconst 0)) \<and>
   expand_syms 1 malformed_grammar Lexicon_init (sconst 0) ([Str ''hello''] @ Other # [Str ''S''])
       [] [] = Some (Inl (ValueError ''Unknown symbol type'')) \<and>
   expand 2 malformed_grammar Lexicon_init (sconst 0) ''S''
     = Some (Inl (ValueError ''Unknown symbol type'')) \<and>
   expand_syms 2 malformed_grammar Lexicon_init (sconst 0) ([Str ''hello''] @ Str ''S'' # []) [] []
     = Some (Inl (ValueError ''Unknown symbol type'')) \<and>
   generate 2 malformed_grammar Lexicon_init (sconst 0)
     = Some (Inl (ValueError ''Unknown symbol type'')) \<and>
   expand_syms 1 malformed_grammar Lexicon_init (sconst 0)
       ([Str ''hello''] @ Tup [PyHashable ''42'', PyDict []] # []) [] [] =
     Some (Inr ([DerivationNode ''hello'' [] (Some ''hello''), DerivationNode ''42'' [] (Some '''')],
       [''hello'', ''''], sconst 0)) \<and>
   expand_syms 1 malformed_grammar Lexicon_init (sconst 0) ([Str ''hello''] @ Tup [] # []) [] [] =
     Some (Inl IndexError) \<and>
   wf_grammar Grammar_init \<and>
   generate 5 Grammar_init Lexicon_init ([2, 1, 0, 0] @- sconst 0) \<noteq>
     Some (Inl (ValueError ''Unknown symbol type''))"
proof -
  let ?alt = "[Str ''hello'', Other, Str ''S'']"
  let ?e = "ValueError ''Unknown symbol type''"
  let ?h = "DerivationNode ''hello'' [] (Some ''hello'')"
  have m: "map_of (rules malformed_grammar) ''S'' = Some (Rule ''S'' [?alt])"
    "start malformed_grammar = ''S''" "\<not> has malformed_grammar ''hello''"
    by (simp_all add: malformed_grammar_def add_rule_def has_def)
  have c: "choice (sconst 0) (rhs (Rule ''S'' [?alt])) = Inr (?alt, sconst 0)"
    by (simp add: choice_def)
  have p1: "expand_syms 1 malformed_grammar Lexicon_init (sconst 0) [Str ''hello''] [] [] =
      Some (Inr ([?h], [''hello''], sconst 0))"
    using m(3) by simp
  have p2: "expand_syms 2 malformed_grammar Lexicon_init (sconst 0) [Str ''hello''] [] [] =
      Some (Inr ([?h], [''hello''], sconst 0))"
    using m(3) by (simp add: expand_numeral)
  note t1 = unknown_symbol_fatal [where n = 1 and gr = malformed_grammar and lx = Lexicon_init
      and rs = "sconst 0" and pre = "[Str ''hello'']" and chs = "[]" and toks = "[]"
      and ?chs1.0 = "[?h]" and ?toks1.0 = "[''hello'']" and ?rs1.0 = "sconst 0"
      and post = "[Str ''S'']" and sy = "''S''" and rule = "Rule ''S'' [?alt]" and alt = ?alt
      and ?rs2.0 = "sconst 0" and e = ?e]
  note t0 = unknown_symbol_fatal [where n = 1 and gr = malformed_grammar and lx = Lexicon_init
      and rs = "sconst 0" and pre = "[Str ''hello'']" and chs = "[]" and toks = "[]"
      and ?chs1.0 = "[?h]" and ?toks1.0 = "[''hello'']" and ?rs1.0 = "sconst 0"
      and post = "[]" and t = "''42''" and vs = "[PyDict []]"]
  note t2 = unknown_symbol_fatal [where n = 2 and gr = malformed_grammar and lx = Lexicon_init
      and rs = "sconst 0" and pre = "[Str ''hello'']" and chs = "[]" and toks = "[]"
      and ?chs1.0 = "[?h]" and ?toks1.0 = "[''hello'']" and ?rs1.0 = "sconst 0"
      and post = "[]" and s = "''S''" and e = ?e]
  note t5 = unknown_symbol_fatal [where n = 5 and gr = Grammar_init and lx = Lexicon_init
      and rs = "[2, 1, 0, 0] @- sconst 0" and m = "''Unknown symbol type''"]
  have a: "expand_syms 1 malformed_grammar Lexicon_init (sconst 0) ([Str ''hello''] @ Other # [Str ''S''])
       [] [] = Some (Inl ?e)"
    by (rule t1 [THEN conjunct1, THEN mp, OF p1])
  have a': "expand_syms 1 malformed_grammar Lexicon_init (sconst 0) ?alt [] [] = Some (Inl ?e)"
    using a by simp
  have "expand (Suc 1) malformed_grammar Lexicon_init (sconst 0) ''S'' = Some (Inl ?e)"
    by (rule t1 [THEN conjunct2, THEN conjunct2, THEN conjunct1, THEN mp])
       (intro conjI m(1) c a')
  then have e2: "expand 2 malformed_grammar Lexicon_init (sconst 0) ''S'' = Some (Inl ?e)"
    by (simp only: Suc_1)
  have 1: "expand_syms 2 malformed_grammar Lexicon_init (sconst 0) ([Str ''hello''] @ Str ''S'' # [])
      [] [] = Some (Inl ?e)"
    by (rule t2 [THEN conjunct2, THEN conjunct1, THEN mp]) (intro conjI p2 e2)
  have e3: "expand 2 malformed_grammar Lexicon_init (sconst 0) (start malformed_grammar) = Some (Inl ?e)"
    unfolding m(2) by (rule e2)
  have 2: "generate 2 malformed_grammar Lexicon_init (sconst 0) = Some (Inl ?e)"
    by (rule t2 [THEN conjunct2, THEN conjunct2, THEN conjunct2, THEN conjunct1, THEN mp, OF e3])
  note tup = t0 [THEN conjunct2, THEN conjunct2, THEN conjunct2, THEN conjunct2, THEN conjunct1,
      THEN mp, OF p1]
  have 3: "expand_syms 1 malformed_grammar Lexicon_init (sconst 0)
       ([Str ''hello''] @ Tup [PyHashable ''42'', PyDict []] # []) [] [] =
     Some (Inr ([?h, DerivationNode ''42'' [] (Some [])], [''hello'', []], sconst 0))"
    using tup [THEN conjunct1] by simp
  have 4: "expand_syms 1 malformed_grammar Lexicon_init (sconst 0) ([Str ''hello''] @ Tup [] # []) [] [] =
     Some (Inl IndexError)"
    by (rule tup [THEN conjunct2, THEN conjunct1])
  have 5: "generate 5 Grammar_init Lexicon_init ([2, 1, 0, 0] @- sconst 0) \<noteq> Some (Inl ?e)"
    by (rule t5 [THEN conjunct2, THEN conjunct2, THEN conjunct2, THEN conjunct2, THEN conjunct2,
        THEN mp, OF wf_Grammar_init, THEN conjunct2])
  show ?thesis by (intro conjI p1 a e2 1 2 3 4 5 wf_Grammar_init)
qed

section \<open>Termination on the seed grammar\<close>

text \<open>
  C1. The seed rule \<open>"?" \<rightarrow> ["?"]\<close> makes \<open>?\<close> a nonterminal whose only alternative is
  itself, and both alternatives of \<open>Q\<close> end in it. When the first draw selects \<open>Q\<close> for
  \<open>S\<close>, no depth of recursion is enough: for every bound, lexicon and rest of the stream,
  \<open>generate\<close> needs a deeper recursion.
\<close>

theorem seed_question_never_returns:
  "shd rs mod 3 = 1 \<Longrightarrow> generate n Grammar_init lx rs = None"
proof (cases n)
  case 0
  then show ?thesis by (simp add: generate_def)
next
  case (Suc k)
  assume d: "shd rs mod 3 = 1"
  have s: "map_of (rules Grammar_init) ''S'' =
      Some (Rule ''S'' [[Str ''CLAUSE''], [Str ''Q''], [Str ''IMP'']])"
    by (simp add: rules_Grammar_init)
  have h: "has Grammar_init ''S''" by (simp add: has_iff s)
  have c: "choice rs [[Str ''CLAUSE''], [Str ''Q''], [Str ''IMP'']] = Inr ([Str ''Q''], stl rs)"
    using d by (simp add: choice_def)
  have "expand_syms k Grammar_init lx (stl rs) [Str ''Q''] [] [] = None"
    by (simp add: expand_Q)
  then have "expand (Suc k) Grammar_init lx rs ''S'' = None"
    using h s c by simp
  then show ?thesis using Suc by (simp add: generate_def start_Grammar_init)
qed

theorem seed_question_never_returns_witness:
  "shd (1 ## sconst 0) mod 3 = (1::nat) \<and>
   generate 1000 Grammar_init Lexicon_init (1 ## sconst 0) = None"
  using seed_question_never_returns [of "1 ## sconst 0" 1000 Lexicon_init]
  by simp

section \<open>Well-formed output\<close>

text \<open>
  C2, as the claim states it, for any lexicon: after \<open>add("7up", "VERB")\<close> the draws that
  select the imperative with the single verb \<open>7up\<close> give the text \<open>7up.\<close>, whose first
  character is not uppercase; and after \<open>add("bad", "VERB", float("nan"))\<close> the draws that
  select the verb \<open>bad\<close> give the valence NaN, which is not between -1.0 and 1.0.
\<close>

theorem generate_any_lexicon_counterexample:
  "generate 5 Grammar_init (add Lexicon_init ''7up'' ''VERB'' (Finite 0))
       ([2, 1, 0, 5] @- sconst 0) =
     Some (Inr (''7up.'',
       DerivationNode ''S''
        [DerivationNode ''IMP''
          [DerivationNode ''V'' [DerivationNode ''<VERB>'' [] (Some ''7up'')] None] None]
        None,
       EmotionField (Finite 0), sconst 0)) \<and>
   \<not> isupper (hd ''7up.'') \<and>
   generate 5 Grammar_init (add Lexicon_init ''bad'' ''VERB'' NaN) ([2, 1, 0, 5] @- sconst 0) =
     Some (Inr (''Bad.'',
       DerivationNode ''S''
        [DerivationNode ''IMP''
          [DerivationNode ''V'' [DerivationNode ''<VERB>'' [] (Some ''bad'')] None] None]
        None,
       EmotionField NaN, sconst 0)) \<and>
   \<not> in_unit NaN"
  by (simp add: generate_eval add_def isupper_def)

text \<open>
  C2, amended. Let every NOUN and VERB of the lexicon begin with an ASCII letter and let no
  polarity of the lexicon be NaN. On the seed grammar, when the first draw does not select
  \<open>Q\<close> and the recursion may go five deep, \<open>generate\<close> returns a result; and every result
  that \<open>generate\<close> returns has a non-empty text whose first character is uppercase and
  whose last character is one of \<open>. ? !\<close>, a valence between -1.0 and 1.0, and a
  pretty-printed tree that contains \<open>S\<close>.
\<close>

theorem generate_well_formed:
  assumes "lexicon_alpha lx" "lexicon_numeric lx"
  shows "(shd rs mod 3 \<noteq> 1 \<and> 5 \<le> n \<longrightarrow> (\<exists>res. generate n Grammar_init lx rs = Some (Inr res))) \<and>
    (\<forall>sent tree field rs1.
       generate n Grammar_init lx rs = Some (Inr (sent, tree, field, rs1)) \<longrightarrow>
         sent \<noteq> [] \<and> isupper (hd sent) \<and> last sent \<in> {CHR ''.'', CHR ''?'', CHR ''!''} \<and>
         in_unit (valence field) \<and>
         (contains (pretty tree 0) ''S'' \<or> contains (pretty tree 0) ''CLAUSE''))"
proof -
  have good: "\<exists>sent. linearize (postprocess toks) = Inr sent \<and> sent \<noteq> [] \<and> isupper (hd sent) \<and>
        last sent \<in> {CHR ''.'', CHR ''?'', CHR ''!''}"
    if "expand n Grammar_init lx rs ''S'' = Some (Inr (tree, toks, rs1))" for tree toks rs1
  proof -
    have "''S'' \<in> set leading" by (simp add: leading_def)
    then have "toks \<noteq> [] \<and> alpha_word (hd toks)" using that by (rule first_token [OF assms(1)])
    then have "postprocess toks \<noteq> [] \<and> alpha_word (hd (postprocess toks))"
      by (simp add: postprocess_first)
    then have "postprocess toks \<noteq> []" "alpha_word (hd (postprocess toks))" by simp_all
    then show ?thesis by (rule linearize_first)
  qed
  have ret: "\<exists>res. generate n Grammar_init lx rs = Some (Inr res)"
    if a: "shd rs mod 3 \<noteq> 1" and b: "5 \<le> n"
  proof -
    obtain res where e: "expand n Grammar_init lx rs ''S'' = Some (Inr res)"
      using seed_start_returns [OF a b] by blast
    obtain tree toks rs1 where res: "res = (tree, toks, rs1)" by (cases res)
    obtain sent where "linearize (postprocess toks) = Inr sent" using good e res by blast
    then show ?thesis using e res by (simp add: generate_def start_Grammar_init)
  qed
  have props: "sent \<noteq> [] \<and> isupper (hd sent) \<and> last sent \<in> {CHR ''.'', CHR ''?'', CHR ''!''} \<and>
         in_unit (valence field) \<and>
         (contains (pretty tree 0) ''S'' \<or> contains (pretty tree 0) ''CLAUSE'')"
    if g: "generate n Grammar_init lx rs = Some (Inr (sent, tree, field, rs1))"
    for sent tree field rs1
  proof -
    obtain tr toks rs2 where e: "expand n Grammar_init lx rs ''S'' = Some (Inr (tr, toks, rs2))"
      using g unfolding generate_def start_Grammar_init
      by (auto split: option.splits sum.splits)
    from g e have eq: "tr = tree"
      "field = valence_loop lx (EmotionField (Finite 0)) (postprocess toks)"
      "linearize (postprocess toks) = Inr sent"
      unfolding generate_def start_Grammar_init by (auto simp: Let_def split: sum.splits)
    obtain s1 where "linearize (postprocess toks) = Inr s1 \<and> s1 \<noteq> [] \<and> isupper (hd s1) \<and>
        last s1 \<in> {CHR ''.'', CHR ''?'', CHR ''!''}"
      using good [OF e] by blast
    then have a: "sent \<noteq> [] \<and> isupper (hd sent) \<and> last sent \<in> {CHR ''.'', CHR ''?'', CHR ''!''}"
      using eq(3) by simp
    have b: "in_unit (valence field)"
      unfolding eq(2) using assms(2) by (rule valence_loop_in_unit)
    have c: "contains (pretty tree 0) ''S''"
      using pretty_generate_root [OF e] eq(1) by simp
    show ?thesis using a b c by simp
  qed
  show ?thesis using ret props by blast
qed

theorem generate_well_formed_witness:
  "lexicon_alpha Lexicon_init \<and> lexicon_numeric Lexicon_init \<and>
   shd ([2, 1, 0, 4] @- sconst 0) mod 3 \<noteq> (1::nat) \<and> (5::nat) \<le> 5 \<and>
   generate 5 Grammar_init Lexicon_init ([2, 1, 0, 4] @- sconst 0) =
     Some (Inr (''Adore.'',
       DerivationNode ''S''
        [DerivationNode ''IMP''
          [DerivationNode ''V'' [DerivationNode ''<VERB>'' [] (Some ''adore'')] None] None]
        None,
       EmotionField (Finite (tanh (4 / 5))), sconst 0)) \<and>
   isupper (hd ''Adore.'') \<and> last ''Adore.'' \<in> {CHR ''.'', CHR ''?'', CHR ''!''} \<and>
   in_unit (Finite (tanh (4 / 5)))"
proof -
  let ?rs = "[2, 1, 0, 4] @- sconst (0::nat)"
  let ?tree = "DerivationNode ''S''
        [DerivationNode ''IMP''
          [DerivationNode ''V'' [DerivationNode ''<VERB>'' [] (Some ''adore'')] None] None]
        None"
  have l: "lexicon_alpha Lexicon_init"
    by (simp add: lexicon_alpha_def Lexicon_init_def isalpha_def lower_letters_def)
  have k: "lexicon_numeric Lexicon_init"
    by (simp add: lexicon_numeric_def Lexicon_init_def)
  have g: "generate 5 Grammar_init Lexicon_init ?rs =
      Some (Inr (''Adore.'', ?tree, EmotionField (Finite (tanh (4 / 5))), sconst 0))"
    by (simp add: generate_eval)
  note t = generate_well_formed [OF l k, of ?rs 5]
  from t g have "isupper (hd ''Adore.'') \<and> last ''Adore.'' \<in> {CHR ''.'', CHR ''?'', CHR ''!''} \<and>
      in_unit (valence (EmotionField (Finite (tanh (4 / 5)))))"
    by blast
  then show ?thesis using l k g by simp
qed

section \<open>Determinism\<close>

text \<open>
  C3, as the claim states it: two generators constructed with the same seed, the same
  grammar and the same lexicon, and then run one after the other, show different triples,
  since the second draws from the shared stream where the first left it. And two lexicons
  with the same entries, which are equal as dictionaries, give different triples for the
  same seed when the entries were added in a different order, since a word is drawn by its
  place among the entries.
\<close>

theorem same_seed_counterexample:
  "map_option (\<lambda>(a, b). a = b)
     (construct_both_then_generate example_prng 44 5 Grammar_init Lexicon_init (sconst 0)) =
   Some False \<and>
   map_of lexicon_ant_bee = map_of lexicon_bee_ant \<and>
   observe (construct_and_generate example_prng 5 5 Grammar_init lexicon_ant_bee (sconst 0)) \<noteq>
   observe (construct_and_generate example_prng 5 5 Grammar_init lexicon_bee_ant (sconst 0))"
proof (intro conjI)
  show "map_option (\<lambda>(a, b). a = b)
     (construct_both_then_generate example_prng 44 5 Grammar_init Lexicon_init (sconst 0)) =
   Some False"
    by (simp add: construct_both_then_generate_def SentenceGenerator_init_def example_prng_def
        observe_def generate_eval arrow_def)
  show "map_of lexicon_ant_bee = map_of lexicon_bee_ant"
    by (rule ext) (simp add: lexicon_ant_bee_def lexicon_bee_ant_def lexicon_eval)
  show "observe (construct_and_generate example_prng 5 5 Grammar_init lexicon_ant_bee (sconst 0)) \<noteq>
   observe (construct_and_generate example_prng 5 5 Grammar_init lexicon_bee_ant (sconst 0))"
    by (simp add: construct_and_generate_def SentenceGenerator_init_def example_prng_def
        observe_def generate_eval arrow_def lexicon_ant_bee_def lexicon_bee_ant_def add_def)
qed

text \<open>
  C3, amended. Let a generator be constructed with a seed and run before anything else
  draws from the shared stream, and let the run return. It consumes finitely many draws of
  the stream that the seed starts and leaves the rest; every run that gets these draws shows
  the same triple, so the triple depends on the seed, the grammar and the lexicon (its
  entries in the order of their insertion) only, whatever the state of the shared stream
  before the construction. Of two generators
  constructed first and run afterwards, the first shows that triple and the second runs on
  the rest of the stream. On the seed grammar such a run does return, with a result or an
  error that again depend on the seed, the grammar and the lexicon only, when the first draw
  does not select \<open>Q\<close> and the recursion may go five deep.
\<close>

theorem seeded_generate_deterministic:
  "(generate n gr lx (prng seed) = Some (Inr (sent, tree, field, rest)) \<longrightarrow>
      (\<exists>ds. prng seed = ds @- rest \<and>
         (\<forall>rs. observe (generate n gr lx (ds @- rs)) =
            Some (Inr (sent, pretty tree 0, valence field)))) \<and>
      observe (construct_and_generate prng seed n gr lx shared1) =
        Some (Inr (sent, pretty tree 0, valence field)) \<and>
      observe (construct_and_generate prng seed n gr lx shared2) =
        Some (Inr (sent, pretty tree 0, valence field)) \<and>
      construct_both_then_generate prng seed n gr lx shared1 =
        Some (Some (Inr (sent, pretty tree 0, valence field)), observe (generate n gr lx rest))) \<and>
   (shd (prng seed) mod 3 \<noteq> 1 \<and> 5 \<le> n \<longrightarrow>
      (\<exists>r. construct_and_generate prng seed n Grammar_init lx shared1 = Some r \<and>
           construct_and_generate prng seed n Grammar_init lx shared2 = Some r))"
proof (intro conjI impI)
  assume g: "generate n gr lx (prng seed) = Some (Inr (sent, tree, field, rest))"
  obtain ds where d: "prng seed = ds @- rest"
    "\<forall>rs. generate n gr lx (ds @- rs) = Some (Inr (sent, tree, field, rs))"
    using generate_draws [OF g] by blast
  have "prng seed = ds @- rest \<and>
      (\<forall>rs. observe (generate n gr lx (ds @- rs)) = Some (Inr (sent, pretty tree 0, valence field)))"
    using d by (simp add: observe_def)
  then show "\<exists>ds. prng seed = ds @- rest \<and>
      (\<forall>rs. observe (generate n gr lx (ds @- rs)) = Some (Inr (sent, pretty tree 0, valence field)))"
    by (rule exI)
  show "observe (construct_and_generate prng seed n gr lx shared1) =
      Some (Inr (sent, pretty tree 0, valence field))"
    using g by (simp add: construct_and_generate_def SentenceGenerator_init_def observe_def)
  show "observe (construct_and_generate prng seed n gr lx shared2) =
      Some (Inr (sent, pretty tree 0, valence field))"
    using g by (simp add: construct_and_generate_def SentenceGenerator_init_def observe_def)
  show "construct_both_then_generate prng seed n gr lx shared1 =
      Some (Some (Inr (sent, pretty tree 0, valence field)), observe (generate n gr lx rest))"
    using g by (simp add: construct_both_then_generate_def SentenceGenerator_init_def observe_def)
next
  assume a: "shd (prng seed) mod 3 \<noteq> 1 \<and> 5 \<le> n"
  then obtain r where "generate n Grammar_init lx (prng seed) = Some r"
    using seed_generate_returns [of "prng seed" n lx] by blast
  then have "construct_and_generate prng seed n Grammar_init lx shared1 = Some r \<and>
      construct_and_generate prng seed n Grammar_init lx shared2 = Some r"
    by (simp add: construct_and_generate_def SentenceGenerator_init_def)
  then show "\<exists>r. construct_and_generate prng seed n Grammar_init lx shared1 = Some r \<and>
      construct_and_generate prng seed n Grammar_init lx shared2 = Some r"
    by (rule exI)
qed

theorem seeded_generate_deterministic_witness:
  "generate 5 Grammar_init Lexicon_init (example_prng 44) =
     Some (Inr (''Chase.'',
       DerivationNode ''S''
        [DerivationNode ''IMP''
          [DerivationNode ''V'' [DerivationNode ''<VERB>'' [] (Some ''chase'')] None] None]
        None,
       EmotionField (Finite (tanh (- (1 / 10)))), [2, 1, 0, 3] @- sconst 0)) \<and>
   shd (example_prng 44) mod 3 \<noteq> 1 \<and> (5::nat) \<le> 5 \<and>
   map_option (map_sum id fst)
     (observe (construct_and_generate example_prng 44 5 Grammar_init Lexicon_init (sconst 0))) =
     Some (Inr ''Chase.'') \<and>
   observe (construct_and_generate example_prng 44 5 Grammar_init Lexicon_init (sconst 0)) =
     observe (construct_and_generate example_prng 44 5 Grammar_init Lexicon_init (sconst 7)) \<and>
   construct_both_then_generate example_prng 44 5 Grammar_init Lexicon_init (sconst 0) =
     Some (observe (generate 5 Grammar_init Lexicon_init (example_prng 44)),
           observe (generate 5 Grammar_init Lexicon_init ([2, 1, 0, 3] @- sconst 0))) \<and>
   (\<exists>ds. example_prng 44 = ds @- [2, 1, 0, 3] @- sconst 0 \<and>
      map_option (map_sum id fst)
        (observe (generate 5 Grammar_init Lexicon_init (ds @- sconst 9))) = Some (Inr ''Chase.''))"
proof -
  let ?tree = "DerivationNode ''S''
        [DerivationNode ''IMP''
          [DerivationNode ''V'' [DerivationNode ''<VERB>'' [] (Some ''chase'')] None] None]
        None"
  let ?field = "EmotionField (Finite (tanh (- (1 / 10))))"
  let ?rest = "[2, 1, 0, 3] @- sconst (0::nat)"
  have g: "generate 5 Grammar_init Lexicon_init (example_prng 44) =
      Some (Inr (''Chase.'', ?tree, ?field, ?rest))"
    by (simp add: example_prng_def generate_eval)
  have h: "shd (example_prng 44) mod 3 \<noteq> 1" "(5::nat) \<le> 5"
    by (simp_all add: example_prng_def)
  note t = seeded_generate_deterministic [where prng = example_prng and seed = 44 and n = 5
      and gr = Grammar_init and lx = Lexicon_init and ?shared1.0 = "sconst 0"
      and ?shared2.0 = "sconst 7" and sent = "''Chase.''" and tree = ?tree
      and field = ?field and rest = ?rest]
  note r = t [THEN conjunct1, THEN mp, OF g]
  note o1 = r [THEN conjunct2, THEN conjunct1]
  note o2 = r [THEN conjunct2, THEN conjunct2, THEN conjunct1]
  note o3 = r [THEN conjunct2, THEN conjunct2, THEN conjunct2]
  obtain ds where d: "example_prng 44 = ds @- ?rest"
    "\<forall>rs. observe (generate 5 Grammar_init Lexicon_init (ds @- rs)) =
        Some (Inr (''Chase.'', pretty ?tree 0, valence ?field))"
    using r [THEN conjunct1] by (elim exE conjE)
  have 1: "map_option (map_sum id fst)
     (observe (construct_and_generate example_prng 44 5 Grammar_init Lexicon_init (sconst 0))) =
     Some (Inr ''Chase.'')"
    unfolding o1 by simp
  have 2: "observe (construct_and_generate example_prng 44 5 Grammar_init Lexicon_init (sconst 0)) =
     observe (construct_and_generate example_prng 44 5 Grammar_init Lexicon_init (sconst 7))"
    unfolding o1 o2 by (rule refl)
  have 3: "construct_both_then_generate example_prng 44 5 Grammar_init Lexicon_init (sconst 0) =
     Some (observe (generate 5 Grammar_init Lexicon_init (example_prng 44)),
           observe (generate 5 Grammar_init Lexicon_init ?rest))"
    unfolding o3 g by (simp add: observe_def)
  have "map_option (map_sum id fst)
        (observe (generate 5 Grammar_init Lexicon_init (ds @- sconst 9))) = Some (Inr ''Chase.'')"
    using d(2) [rule_format, of "sconst 9"] by simp
  with d(1) have "example_prng 44 = ds @- ?rest \<and>
      map_option (map_sum id fst)
        (observe (generate 5 Grammar_init Lexicon_init (ds @- sconst 9))) = Some (Inr ''Chase.'')"
    by (rule conjI)
  then have 4: "\<exists>ds. example_prng 44 = ds @- ?rest \<and>
      map_option (map_sum id fst)
        (observe (generate 5 Grammar_init Lexicon_init (ds @- sconst 9))) = Some (Inr ''Chase.'')"
    by (rule exI [where x = ds])
  show ?thesis by (intro conjI g h 1 2 3 4)
qed

end
